theory Spec2Isabelle
  imports Main "HOL-Library.AList"
begin

section \<open>Python values and exceptions\<close>

text \<open>
  The program is \<^verbatim>\<open>src/ldes-consumer/app.py\<close>. It reads a YAML document, derives one
  environment per feed and drives the Docker daemon through the Docker SDK.

  The exceptions that the program can meet. \<open>NotFound\<close> and \<open>APIError\<close> are the Docker
  SDK's errors (both subclasses of \<open>DockerException\<close>); every handler of the program that
  catches one of them catches \<open>Exception\<close>, so their class never decides a branch.
\<close>

datatype exn =
    AttributeError
  | TypeError
  | OSError
  | FileNotFoundError
  | YAMLError
  | KeyError
  | NotFound
  | APIError
  | DockerException

text \<open>
  What \<^verbatim>\<open>yaml.safe_load\<close> returns: \<open>None\<close>, booleans, integers, strings, lists and
  dictionaries. The keys of a dictionary are the scalars among them (\<open>ykey\<close>): the key
  \<^verbatim>\<open>1\<close> is an integer and the key \<^verbatim>\<open>'1'\<close> a string. A dictionary is an association
  list in insertion order; a list stands for a dictionary when no two of its keys are
  equal in Python's sense (which identifies \<^verbatim>\<open>True\<close> with \<^verbatim>\<open>1\<close> and \<^verbatim>\<open>False\<close> with
  \<^verbatim>\<open>0\<close>). Floats, dates and byte strings are left out. Strings are the byte lists of
  their UTF-8 form.
\<close>

datatype ykey =
    KNull
  | KBool bool
  | KInt int
  | KStr string

datatype yaml =
    YNull
  | YBool bool
  | YInt int
  | YStr string
  | YSeq "yaml list"
  | YMap "(ykey \<times> yaml) list"

text \<open>\<^verbatim>\<open>d.get(k, default)\<close> on a dictionary, for a string \<open>k\<close>.\<close>

definition dget :: "(ykey \<times> yaml) list \<Rightarrow> string \<Rightarrow> yaml \<Rightarrow> yaml" where
  "dget d k dflt = (case map_of d (KStr k) of Some v \<Rightarrow> v | None \<Rightarrow> dflt)"

text \<open>
  Looking up the attribute \<^verbatim>\<open>get\<close> or \<^verbatim>\<open>items\<close>: only a dictionary has it, any other
  value raises \<open>AttributeError\<close>.
\<close>

fun as_dict :: "yaml \<Rightarrow> exn + (ykey \<times> yaml) list" where
  "as_dict (YMap d) = Inr d"
| "as_dict _ = Inl AttributeError"

text \<open>
  \<^verbatim>\<open>s.lower()\<close>. On a string of ASCII characters it maps the letters \<^verbatim>\<open>A\<close> to \<^verbatim>\<open>Z\<close>
  to \<^verbatim>\<open>a\<close> to \<^verbatim>\<open>z\<close> and keeps every other character. On any other string Python
  applies the case mapping of the Unicode standard, which belongs to the Python
  runtime and is not reproduced here: it is the parameter \<open>unicode_lower\<close>, about which
  nothing is assumed.
\<close>

definition lower_char :: "char \<Rightarrow> char" where
  "lower_char c =
     (case map_of (zip ''ABCDEFGHIJKLMNOPQRSTUVWXYZ'' ''abcdefghijklmnopqrstuvwxyz'') c of
        Some l \<Rightarrow> l
      | None \<Rightarrow> c)"

definition is_ascii :: "string \<Rightarrow> bool" where
  "is_ascii s = list_all (\<lambda>c. \<not> digit7 c) s"

definition lower :: "(string \<Rightarrow> string) \<Rightarrow> string \<Rightarrow> string" where
  "lower unicode_lower s = (if is_ascii s then map lower_char s else unicode_lower s)"

text \<open>Only a string has the method \<^verbatim>\<open>lower\<close>.\<close>

fun py_lower :: "(string \<Rightarrow> string) \<Rightarrow> yaml \<Rightarrow> exn + yaml" where
  "py_lower unicode_lower (YStr s) = Inr (YStr (lower unicode_lower s))"
| "py_lower unicode_lower _ = Inl AttributeError"

text \<open>\<^verbatim>\<open>str(v)\<close>, with \<^verbatim>\<open>repr\<close> for the elements of lists and dictionaries.\<close>

definition digit_char :: "nat \<Rightarrow> char" where
  "digit_char d = ''0123456789'' ! d"

fun digits :: "nat \<Rightarrow> string" where
  "digits n = (if n < 10 then [digit_char n] else digits (n div 10) @ [digit_char (n mod 10)])"

declare digits.simps [simp del]

definition str_int :: "int \<Rightarrow> string" where
  "str_int i = (if i < 0 then CHR ''-'' # digits (nat (- i)) else digits (nat i))"

definition hex_char :: "nat \<Rightarrow> char" where
  "hex_char d = ''0123456789abcdef'' ! d"

definition repr_char :: "char \<Rightarrow> char \<Rightarrow> string" where
  "repr_char q c =
     (let n = (of_char c :: nat) in
      if c = q \<or> c = CHR 0x5C then [CHR 0x5C, c]
      else if n = 9 then [CHR 0x5C, CHR ''t'']
      else if n = 10 then [CHR 0x5C, CHR ''n'']
      else if n = 13 then [CHR 0x5C, CHR ''r'']
      else if n < 32 \<or> n = 127 then [CHR 0x5C, CHR ''x'', hex_char (n div 16), hex_char (n mod 16)]
      else [c])"

definition repr_str :: "string \<Rightarrow> string" where
  "repr_str s =
     (let q = (if CHR 0x27 \<in> set s \<and> CHR 0x22 \<notin> set s then CHR 0x22 else CHR 0x27)
      in [q] @ concat (map (repr_char q) s) @ [q])"

fun join :: "string \<Rightarrow> string list \<Rightarrow> string" where
  "join sep [] = []"
| "join sep [x] = x"
| "join sep (x # y # ys) = x @ sep @ join sep (y # ys)"

text \<open>\<^verbatim>\<open>str(k)\<close> and \<^verbatim>\<open>repr(k)\<close> of a key; an f-string formats a key with \<^verbatim>\<open>str\<close>.\<close>

fun key_str :: "ykey \<Rightarrow> string" where
  "key_str KNull = ''None''"
| "key_str (KBool b) = (if b then ''True'' else ''False'')"
| "key_str (KInt i) = str_int i"
| "key_str (KStr s) = s"

fun key_repr :: "ykey \<Rightarrow> string" where
  "key_repr (KStr s) = repr_str s"
| "key_repr k = key_str k"

fun py_repr :: "yaml \<Rightarrow> string" where
  "py_repr YNull = ''None''"
| "py_repr (YBool b) = (if b then ''True'' else ''False'')"
| "py_repr (YInt i) = str_int i"
| "py_repr (YStr s) = repr_str s"
| "py_repr (YSeq xs) = ''['' @ join '', '' (map py_repr xs) @ '']''"
| "py_repr (YMap d) =
     ''{'' @ join '', '' (map (\<lambda>kv. key_repr (fst kv) @ '': '' @ py_repr (snd kv)) d) @ ''}''"

fun py_str :: "yaml \<Rightarrow> string" where
  "py_str (YStr s) = s"
| "py_str v = py_repr v"

text \<open>\<^verbatim>\<open>os.getenv(k, default)\<close> on the process environment.\<close>

definition getenv :: "(string \<Rightarrow> string option) \<Rightarrow> string \<Rightarrow> string \<Rightarrow> string" where
  "getenv env k dflt = (case env k of Some v \<Rightarrow> v | None \<Rightarrow> dflt)"

section \<open>The environment of one feed (\<^verbatim>\<open>process_feeds\<close>, lines 154-210)\<close>

text \<open>Lines 154-158: the endpoint that \<^verbatim>\<open>process_feeds\<close> computes and prints.\<close>

definition default_sparql_endpoint :: "(string \<Rightarrow> string option) \<Rightarrow> string" where
  "default_sparql_endpoint env =
     (let gdb_repo = getenv env ''GDB_REPO'' ''kgap''
      in getenv env ''DEFAULT_SPARQL_ENDPOINT''
           (''http://graphdb:7200/repositories/'' @ gdb_repo @ ''/statements''))"

text \<open>Line 178.\<close>

definition default_target_graph :: "string \<Rightarrow> ykey \<Rightarrow> string" where
  "default_target_graph graph_prefix feed_name =
     ''urn:kgap:'' @ graph_prefix @ '':'' @ key_str feed_name"

text \<open>Lines 181-183.\<close>

definition target_graph :: "string \<Rightarrow> ykey \<Rightarrow> (ykey \<times> yaml) list \<Rightarrow> (ykey \<times> yaml) list \<Rightarrow> yaml" where
  "target_graph graph_prefix feed_name fd feed_env =
     dget feed_env ''TARGET_GRAPH''
       (dget fd ''target_graph'' (YStr (default_target_graph graph_prefix feed_name)))"

text \<open>The keys of the dictionary literal of lines 187-205, in its order.\<close>

definition required_keys :: "string list" where
  "required_keys =
     [''SPARQL_ENDPOINT'', ''TARGET_GRAPH'', ''FOLLOW'', ''MEMBER_BATCH_SIZE'', ''MATERIALIZE'',
      ''LOG_LEVEL'', ''LDES'', ''POLLING_FREQUENCY'', ''FAILURE_IS_FATAL'', ''OPERATION_MODE'',
      ''SHAPE'']"

text \<open>
  Lines 187-205. The only part that can raise is \<^verbatim>\<open>.lower()\<close> on the log level, when
  the feed supplies a value that is not a string.
\<close>

definition base_env_vars ::
  "(string \<Rightarrow> string) \<Rightarrow> (string \<Rightarrow> string option) \<Rightarrow> yaml \<Rightarrow> yaml \<Rightarrow> (ykey \<times> yaml) list \<Rightarrow>
     exn + (ykey \<times> yaml) list" where
  "base_env_vars unicode_lower env tg feed_url feed_env =
     (case py_lower unicode_lower
             (dget feed_env ''LOG_LEVEL''
                (YStr (getenv env ''LDES_LOG_LEVEL'' (getenv env ''LOG_LEVEL'' ''DEBUG'')))) of
        Inl e \<Rightarrow> Inl e
      | Inr log_level \<Rightarrow> Inr
         [(KStr ''SPARQL_ENDPOINT'',
             dget feed_env ''SPARQL_ENDPOINT'' (YStr (getenv env ''DEFAULT_SPARQL_ENDPOINT'' ''''))),
          (KStr ''TARGET_GRAPH'', tg),
          (KStr ''FOLLOW'', dget feed_env ''FOLLOW'' (YStr ''false'')),
          (KStr ''MEMBER_BATCH_SIZE'', dget feed_env ''MEMBER_BATCH_SIZE'' (YStr ''500'')),
          (KStr ''MATERIALIZE'', dget feed_env ''MATERIALIZE'' (YStr ''false'')),
          (KStr ''LOG_LEVEL'', log_level),
          (KStr ''LDES'', feed_url),
          (KStr ''POLLING_FREQUENCY'', dget feed_env ''POLLING_FREQUENCY'' (YStr ''60000'')),
          (KStr ''FAILURE_IS_FATAL'', dget feed_env ''FAILURE_IS_FATAL'' (YStr ''false'')),
          (KStr ''OPERATION_MODE'', dget feed_env ''OPERATION_MODE'' (YStr ''Replication'')),
          (KStr ''SHAPE'', dget feed_env ''SHAPE'' (YStr ''''))])"

text \<open>Lines 208-210: a key of the feed that is not yet in \<^verbatim>\<open>env_vars\<close> is appended.\<close>

fun add_custom :: "(ykey \<times> yaml) list \<Rightarrow> (ykey \<times> yaml) list \<Rightarrow> (ykey \<times> yaml) list" where
  "add_custom [] env_vars = env_vars"
| "add_custom ((env_key, env_value) # rest) env_vars =
     add_custom rest
       (if env_key \<in> set (map fst env_vars) then env_vars
        else env_vars @ [(env_key, YStr (py_str env_value))])"

text \<open>
  Lines 177-210 for one feed whose \<^verbatim>\<open>feed_data\<close> is the dictionary \<open>fd\<close>:
  \<^verbatim>\<open>feed_env.get\<close> raises when the feed's \<^verbatim>\<open>environment\<close> is not a dictionary.
\<close>

definition env_vars ::
  "(string \<Rightarrow> string) \<Rightarrow> (string \<Rightarrow> string option) \<Rightarrow> string \<Rightarrow> ykey \<Rightarrow> (ykey \<times> yaml) list \<Rightarrow>
     exn + (ykey \<times> yaml) list" where
  "env_vars unicode_lower env graph_prefix feed_name fd =
     (let feed_url = dget fd ''url'' (YStr '''') in
      case as_dict (dget fd ''environment'' (YMap [])) of
        Inl e \<Rightarrow> Inl e
      | Inr feed_env \<Rightarrow>
          (case base_env_vars unicode_lower env (target_graph graph_prefix feed_name fd feed_env)
                  feed_url feed_env of
             Inl e \<Rightarrow> Inl e
           | Inr vars \<Rightarrow> Inr (add_custom feed_env vars)))"

section \<open>The world outside the program\<close>

text \<open>The keyword arguments of \<^verbatim>\<open>docker_client.containers.run\<close> (lines 221-239).\<close>

record run_config =
  rc_image :: string
  rc_name :: string
  rc_environment :: "(ykey \<times> yaml) list"
  rc_detach :: bool
  rc_remove :: bool
  rc_volumes :: "(string \<times> string \<times> string) list"
  rc_labels :: "(string \<times> string) list option"
  rc_network :: "string option"

text \<open>
  A container as the Docker daemon knows it. \<open>ci_labels\<close> is \<open>None\<close> when the
  inspection data has no \<^verbatim>\<open>Config\<close> entry: the SDK's \<^verbatim>\<open>labels\<close> property raises then.
  \<open>ci_networks\<close> are the keys of \<^verbatim>\<open>NetworkSettings.Networks\<close>, empty when missing.
\<close>

record cont =
  ci_id :: string
  ci_name :: string
  ci_status :: string
  ci_labels :: "(string \<times> string) list option"
  ci_networks :: "string list"

text \<open>The SDK's container object that the program holds on to.\<close>

record handle =
  hid :: string
  hname :: string

datatype call =
    Ping
  | ContainersGet string
  | ContainersRun run_config
  | Reload string
  | Stop string nat
  | Remove string

text \<open>
  The lines the program prints that matter below: its error and warning lines, the
  default endpoint it announces, the start of each feed and of each container, and the
  report of the monitoring loop. The other informational lines are left out.
\<close>

datatype line =
    ConfigNotFound string
  | YamlParseError
  | DockerConnectError exn
  | NoFeedsSection
  | DefaultEndpoint string
  | FeedHeader ykey
  | ContainerStarted string
  | SpawnError exn
  | CleanupError exn
  | ComposeUndetected exn
  | NetworkUndetected exn
  | RunningCount nat nat
  | AllStopped

datatype event =
    Api call "exn option"
  | Mkdir string "exn option"
  | OpenConfig string "exn option"
  | Print line

text \<open>
  Everything the program reads or changes outside its own variables: the process
  environment, the working directory, what opening and parsing each path gives, which
  directories cannot be created, the Python runtime's lower-casing of text outside
  ASCII (the parameter of \<open>lower\<close>), the daemon's containers, and the record of what the
  program did (\<open>trace\<close>). \<open>faults\<close> decides which of the coming Docker API calls fail
  on their own (daemon unreachable, time-out, server error): each call takes the next
  entry, and \<open>True\<close> makes that call raise \<open>APIError\<close>; once the list is used up no call
  fails that way.
\<close>

record world =
  environ :: "string \<Rightarrow> string option"
  cwd :: string
  config_files :: "string \<Rightarrow> exn + yaml"
  mkdir_error :: "string \<Rightarrow> bool"
  unicode_lower :: "string \<Rightarrow> string"
  daemon :: "cont list"
  faults :: "bool list"
  trace :: "event list"

definition emit :: "event \<Rightarrow> world \<Rightarrow> world" where
  "emit e w = w\<lparr>trace := trace w @ [e]\<rparr>"

definition next_fault :: "world \<Rightarrow> bool \<times> world" where
  "next_fault w = (case faults w of [] \<Rightarrow> (False, w) | f # fs \<Rightarrow> (f, w\<lparr>faults := fs\<rparr>))"

definition raised :: "exn + 'a \<Rightarrow> exn option" where
  "raised r = (case r of Inl e \<Rightarrow> Some e | Inr _ \<Rightarrow> None)"

text \<open>One call of the Docker API: it may fail on its own, and it is recorded with its outcome.\<close>

definition api :: "call \<Rightarrow> (world \<Rightarrow> (exn + 'a) \<times> world) \<Rightarrow> world \<Rightarrow> (exn + 'a) \<times> world" where
  "api c body w =
     (case next_fault w of (f, w1) \<Rightarrow>
        (case (if f then (Inl APIError, w1) else body w1) of (r, w2) \<Rightarrow>
           (r, emit (Api c (raised r)) w2)))"

definition ping :: "world \<Rightarrow> (exn + unit) \<times> world" where
  "ping = api Ping (\<lambda>w. (Inr (), w))"

text \<open>The daemon finds a container by its name or by a prefix of its identifier.\<close>

definition matches :: "string \<Rightarrow> cont \<Rightarrow> bool" where
  "matches h c = (ci_name c = h \<or> (h \<noteq> [] \<and> take (length h) (ci_id c) = h))"

definition containers_get :: "string \<Rightarrow> world \<Rightarrow> (exn + cont) \<times> world" where
  "containers_get h =
     api (ContainersGet h)
       (\<lambda>w. case find (matches h) (daemon w) of
               None \<Rightarrow> (Inl NotFound, w)
             | Some c \<Rightarrow> (Inr c, w))"

definition fresh_id :: "cont list \<Rightarrow> string" where
  "fresh_id cs = replicate (Suc (foldr (\<lambda>c m. max (length (ci_id c)) m) cs 0)) (CHR ''c'')"

text \<open>
  Creating and starting a container: the daemon refuses a name that is in use, and
  gives a new container an identifier that no other container has.
\<close>

definition containers_run :: "run_config \<Rightarrow> world \<Rightarrow> (exn + handle) \<times> world" where
  "containers_run cfg =
     api (ContainersRun cfg)
       (\<lambda>w. if list_ex (\<lambda>c. ci_name c = rc_name cfg) (daemon w) then (Inl APIError, w)
             else
               (let c = \<lparr>ci_id = fresh_id (daemon w), ci_name = rc_name cfg,
                         ci_status = ''running'',
                         ci_labels = Some (case rc_labels cfg of None \<Rightarrow> [] | Some l \<Rightarrow> l),
                         ci_networks = (case rc_network cfg of None \<Rightarrow> [''bridge''] | Some n \<Rightarrow> [n])\<rparr>
                in (Inr \<lparr>hid = ci_id c, hname = ci_name c\<rparr>, w\<lparr>daemon := daemon w @ [c]\<rparr>)))"

definition reload :: "handle \<Rightarrow> world \<Rightarrow> (exn + string) \<times> world" where
  "reload h =
     api (Reload (hid h))
       (\<lambda>w. case find (\<lambda>c. ci_id c = hid h) (daemon w) of
               None \<Rightarrow> (Inl NotFound, w)
             | Some c \<Rightarrow> (Inr (ci_status c), w))"

definition stop :: "handle \<Rightarrow> nat \<Rightarrow> world \<Rightarrow> (exn + unit) \<times> world" where
  "stop h timeout =
     api (Stop (hid h) timeout)
       (\<lambda>w. if list_ex (\<lambda>c. ci_id c = hid h) (daemon w)
             then (Inr (), w\<lparr>daemon :=
                     map (\<lambda>c. if ci_id c = hid h then c\<lparr>ci_status := ''exited''\<rparr> else c) (daemon w)\<rparr>)
             else (Inl NotFound, w))"

text \<open>The daemon removes a container only when it is not running.\<close>

definition remove :: "handle \<Rightarrow> world \<Rightarrow> (exn + unit) \<times> world" where
  "remove h =
     api (Remove (hid h))
       (\<lambda>w. case find (\<lambda>c. ci_id c = hid h) (daemon w) of
               None \<Rightarrow> (Inl NotFound, w)
             | Some c \<Rightarrow>
                 if ci_status c = ''running'' then (Inl APIError, w)
                 else (Inr (), w\<lparr>daemon := filter (\<lambda>c. ci_id c \<noteq> hid h) (daemon w)\<rparr>))"

text \<open>\<^verbatim>\<open>Path(d).mkdir(parents=True, exist_ok=True)\<close>.\<close>

definition mkdir :: "string \<Rightarrow> world \<Rightarrow> exn option \<times> world" where
  "mkdir d w =
     (let r = (if mkdir_error w d then Some OSError else None) in (r, emit (Mkdir d r) w))"

section \<open>Detection of the compose project and of the network (lines 20-95)\<close>

definition compose_keys :: "string list" where
  "compose_keys =
     [''com.docker.compose.project'', ''com.docker.compose.project.working_dir'',
      ''com.docker.compose.project.config_files'']"

text \<open>The body of the \<^verbatim>\<open>try\<close> of \<^verbatim>\<open>get_compose_labels\<close>: \<open>Inl\<close> is an exception it raises.\<close>

definition compose_labels_body :: "world \<Rightarrow> (exn + (string \<times> string) list) \<times> world" where
  "compose_labels_body w =
     (case environ w ''HOSTNAME'' of
        None \<Rightarrow> (Inr [], w)
      | Some hostname \<Rightarrow>
          if hostname = [] then (Inr [], w)
          else
            (case containers_get hostname w of
               (Inl e, w1) \<Rightarrow> (Inl e, w1)
             | (Inr container, w1) \<Rightarrow>
                 (case ci_labels container of
                    None \<Rightarrow> (Inl DockerException, w1)
                  | Some labels \<Rightarrow>
                      (Inr (concat (map (\<lambda>key. case map_of labels key of
                                                  None \<Rightarrow> []
                                                | Some v \<Rightarrow> [(key, v)]) compose_keys)), w1))))"

definition get_compose_labels :: "world \<Rightarrow> (string \<times> string) list \<times> world" where
  "get_compose_labels w =
     (case compose_labels_body w of
        (Inl e, w1) \<Rightarrow> ([], emit (Print (ComposeUndetected e)) w1)
      | (Inr compose_labels, w1) \<Rightarrow> (compose_labels, w1))"

definition parent_network_body :: "world \<Rightarrow> (exn + string option) \<times> world" where
  "parent_network_body w =
     (case environ w ''HOSTNAME'' of
        None \<Rightarrow> (Inr None, w)
      | Some hostname \<Rightarrow>
          if hostname = [] then (Inr None, w)
          else
            (case containers_get hostname w of
               (Inl e, w1) \<Rightarrow> (Inl e, w1)
             | (Inr container, w1) \<Rightarrow>
                 (case ci_networks container of
                    [] \<Rightarrow> (Inr None, w1)
                  | network_name # _ \<Rightarrow> (Inr (Some network_name), w1))))"

definition get_parent_network :: "world \<Rightarrow> string option \<times> world" where
  "get_parent_network w =
     (case parent_network_body w of
        (Inl e, w1) \<Rightarrow> (None, emit (Print (NetworkUndetected e)) w1)
      | (Inr network, w1) \<Rightarrow> (network, w1))"

section \<open>Loading the configuration (lines 98-117)\<close>

datatype outcome = Exit nat | Uncaught exn

text \<open>
  \<open>Inl\<close> is the way the process ends inside \<^verbatim>\<open>load_ldes_feeds\<close>: \<^verbatim>\<open>sys.exit(1)\<close> for
  the two exceptions it handles, the exception itself for any other.
\<close>

definition load_ldes_feeds :: "string \<Rightarrow> world \<Rightarrow> (outcome + yaml) \<times> world" where
  "load_ldes_feeds config_path w =
     (case config_files w config_path of
        Inr config \<Rightarrow> (Inr config, emit (OpenConfig config_path None) w)
      | Inl e \<Rightarrow>
          (let w1 = emit (OpenConfig config_path (Some e)) w in
           if e = FileNotFoundError then (Inl (Exit 1), emit (Print (ConfigNotFound config_path)) w1)
           else if e = YAMLError then (Inl (Exit 1), emit (Print YamlParseError) w1)
           else (Inl (Uncaught e), w1)))"

section \<open>Spawning the containers (lines 120-252)\<close>

text \<open>\<^verbatim>\<open>k in v\<close>, \<^verbatim>\<open>v[k]\<close> and \<^verbatim>\<open>len(v)\<close> for a string \<open>k\<close>.\<close>

definition substring :: "string \<Rightarrow> string \<Rightarrow> bool" where
  "substring p s = list_ex (\<lambda>n. take (length p) (drop n s) = p) [0..<Suc (length s)]"

fun py_contains :: "yaml \<Rightarrow> string \<Rightarrow> exn + bool" where
  "py_contains (YMap d) k = Inr (KStr k \<in> set (map fst d))"
| "py_contains (YSeq xs) k = Inr (YStr k \<in> set xs)"
| "py_contains (YStr s) k = Inr (substring k s)"
| "py_contains _ k = Inl TypeError"

fun py_index :: "yaml \<Rightarrow> string \<Rightarrow> exn + yaml" where
  "py_index (YMap d) k = (case map_of d (KStr k) of None \<Rightarrow> Inl KeyError | Some v \<Rightarrow> Inr v)"
| "py_index _ k = Inl TypeError"

fun py_len :: "yaml \<Rightarrow> exn + nat" where
  "py_len (YMap d) = Inr (length d)"
| "py_len (YSeq xs) = Inr (length xs)"
| "py_len (YStr s) = Inr (length s)"
| "py_len _ = Inl TypeError"

text \<open>The variables of \<^verbatim>\<open>process_feeds\<close> that are fixed before its loop starts.\<close>

record locals =
  ldes2sparql_image :: string
  host_pwd :: string
  graph_prefix :: string
  compose_labels :: "(string \<times> string) list"
  docker_network :: "string option"

text \<open>
  Lines 168 and 223. The feed name is a key of the \<^verbatim>\<open>feeds\<close> dictionary, and the
  f-strings format it with \<^verbatim>\<open>str\<close>: the feeds \<^verbatim>\<open>1\<close> and \<^verbatim>\<open>'1'\<close> get the same
  directory and the same container name.
\<close>

definition feed_state_dir :: "string \<Rightarrow> ykey \<Rightarrow> string" where
  "feed_state_dir hp feed_name = hp @ ''/data/ldes-consumer/state/'' @ key_str feed_name"

definition container_name :: "ykey \<Rightarrow> string" where
  "container_name feed_name = ''ldes-consumer-'' @ key_str feed_name"

text \<open>Lines 221-239. An empty network name counts as no network.\<close>

definition container_config :: "locals \<Rightarrow> ykey \<Rightarrow> (ykey \<times> yaml) list \<Rightarrow> run_config" where
  "container_config L feed_name vars =
     \<lparr>rc_image = ldes2sparql_image L,
      rc_name = container_name feed_name,
      rc_environment = vars,
      rc_detach = True,
      rc_remove = False,
      rc_volumes = [(feed_state_dir (host_pwd L) feed_name, ''/state'', ''rw'')],
      rc_labels =
        (if compose_labels L = [] then None
         else Some (AList.update ''com.docker.compose.service'' (container_name feed_name)
                      (compose_labels L))),
      rc_network =
        (case docker_network L of
           None \<Rightarrow> None
         | Some n \<Rightarrow> if n = [] then None else Some n)\<rparr>"

text \<open>
  Lines 217-248, the \<^verbatim>\<open>try\<close> around the spawn: an exception of the call is printed and
  the feed yields no container.
\<close>

definition spawn :: "locals \<Rightarrow> ykey \<Rightarrow> (ykey \<times> yaml) list \<Rightarrow> world \<Rightarrow> handle option \<times> world" where
  "spawn L feed_name vars w =
     (case containers_run (container_config L feed_name vars) w of
        (Inl e, w1) \<Rightarrow> (None, emit (Print (SpawnError e)) w1)
      | (Inr container, w1) \<Rightarrow>
          (Some container, emit (Print (ContainerStarted (take 12 (hid container)))) w1))"

text \<open>
  The body of the loop over the feeds (lines 164-250). What is outside the \<^verbatim>\<open>try\<close>
  can raise out of \<^verbatim>\<open>process_feeds\<close>: \<^verbatim>\<open>feed_data.get\<close>, the creation of the state
  directory, and the construction of the environment.
\<close>

definition feed_step :: "locals \<Rightarrow> ykey \<Rightarrow> yaml \<Rightarrow> world \<Rightarrow> (exn + handle option) \<times> world" where
  "feed_step L feed_name feed_data w =
     (let w0 = emit (Print (FeedHeader feed_name)) w in
      case as_dict feed_data of
        Inl e \<Rightarrow> (Inl e, w0)
      | Inr fd \<Rightarrow>
          (case mkdir (feed_state_dir (host_pwd L) feed_name) w0 of
             (Some e, w1) \<Rightarrow> (Inl e, w1)
           | (None, w1) \<Rightarrow>
               (case env_vars (unicode_lower w1) (environ w1) (graph_prefix L) feed_name fd of
                  Inl e \<Rightarrow> (Inl e, w1)
                | Inr vars \<Rightarrow>
                    (case spawn L feed_name vars w1 of (r, w2) \<Rightarrow> (Inr r, w2)))))"

fun spawn_feeds ::
  "locals \<Rightarrow> (ykey \<times> yaml) list \<Rightarrow> handle list \<Rightarrow> world \<Rightarrow> (exn + handle list) \<times> world" where
  "spawn_feeds L [] containers w = (Inr containers, w)"
| "spawn_feeds L ((feed_name, feed_data) # rest) containers w =
     (case feed_step L feed_name feed_data w of
        (Inl e, w1) \<Rightarrow> (Inl e, w1)
      | (Inr None, w1) \<Rightarrow> spawn_feeds L rest containers w1
      | (Inr (Some container), w1) \<Rightarrow> spawn_feeds L rest (containers @ [container]) w1)"

text \<open>Lines 140-152: the detection, and the fall-back to \<^verbatim>\<open>DOCKER_NETWORK\<close>.\<close>

definition detect_locals :: "string \<Rightarrow> world \<Rightarrow> locals \<times> world" where
  "detect_locals image_ref w =
     (case get_compose_labels w of (labels, w1) \<Rightarrow>
        (case get_parent_network w1 of (network, w2) \<Rightarrow>
           (\<lparr>ldes2sparql_image = image_ref,
             host_pwd = getenv (environ w) ''HOST_PWD'' (cwd w),
             graph_prefix = getenv (environ w) ''GRAPH_PREFIX'' ''ldes'',
             compose_labels = labels,
             docker_network =
               (if network = None \<or> network = Some [] then environ w ''DOCKER_NETWORK''
                else network)\<rparr>, w2)))"

definition process_feeds :: "yaml \<Rightarrow> string \<Rightarrow> world \<Rightarrow> (exn + handle list) \<times> world" where
  "process_feeds feeds_config image_ref w =
     (case py_contains feeds_config ''feeds'' of
        Inl e \<Rightarrow> (Inl e, w)
      | Inr present \<Rightarrow>
          if \<not> present then (Inr [], emit (Print NoFeedsSection) w)
          else
            (case py_index feeds_config ''feeds'' of
               Inl e \<Rightarrow> (Inl e, w)
             | Inr feeds \<Rightarrow>
                 (case py_len feeds of
                    Inl e \<Rightarrow> (Inl e, w)
                  | Inr n \<Rightarrow>
                      (case detect_locals image_ref w of (L, w1) \<Rightarrow>
                         (let w2 = emit (Print (DefaultEndpoint (default_sparql_endpoint (environ w1)))) w1
                          in case as_dict feeds of
                               Inl e \<Rightarrow> (Inl e, w2)
                             | Inr items \<Rightarrow> spawn_feeds L items [] w2)))))"

section \<open>Cleaning up (lines 255-279)\<close>

text \<open>The body of the loop: one \<^verbatim>\<open>try\<close> holds both the stop and the removal.\<close>

definition cleanup_one :: "handle \<Rightarrow> world \<Rightarrow> world" where
  "cleanup_one container w =
     (case stop container 10 w of
        (Inl e, w1) \<Rightarrow> emit (Print (CleanupError e)) w1
      | (Inr _, w1) \<Rightarrow>
          (case remove container w1 of
             (Inl e, w2) \<Rightarrow> emit (Print (CleanupError e)) w2
           | (Inr _, w2) \<Rightarrow> w2))"

fun cleanup_loop :: "handle list \<Rightarrow> world \<Rightarrow> world" where
  "cleanup_loop [] w = w"
| "cleanup_loop (container # rest) w = cleanup_loop rest (cleanup_one container w)"

definition cleanup_containers :: "handle list \<Rightarrow> world \<Rightarrow> world" where
  "cleanup_containers containers w = (if containers = [] then w else cleanup_loop containers w)"

section \<open>The main program (lines 282-364)\<close>

text \<open>Lines 340-348: one pass over the containers, collecting those that are running.\<close>

fun check_status :: "handle list \<Rightarrow> handle list \<Rightarrow> world \<Rightarrow> handle list \<times> world" where
  "check_status [] active_containers w = (active_containers, w)"
| "check_status (container # rest) active_containers w =
     (case reload container w of
        (Inl e, w1) \<Rightarrow> check_status rest active_containers w1
      | (Inr status, w1) \<Rightarrow>
          check_status rest
            (if status = ''running'' then active_containers @ [container] else active_containers) w1)"

text \<open>Lines 339-358: one round of the monitoring loop, up to its sleep.\<close>

definition poll :: "handle list \<Rightarrow> world \<Rightarrow> world" where
  "poll containers w =
     (case check_status containers [] w of (active_containers, w1) \<Rightarrow>
        emit (Print (if active_containers \<noteq> []
                     then RunningCount (length active_containers) (length containers)
                     else AllStopped)) w1)"

text \<open>
  The loop \<^verbatim>\<open>while True\<close> ends only when a signal arrives; \<open>rounds\<close> is the number of
  rounds it completes before that.
\<close>

fun monitor :: "nat \<Rightarrow> handle list \<Rightarrow> world \<Rightarrow> world" where
  "monitor 0 containers w = w"
| "monitor (Suc rounds) containers w = monitor rounds containers (poll containers w)"

text \<open>
  \<^verbatim>\<open>main\<close>, with the shutdown signal arriving in the sleep after \<open>rounds\<close> rounds of the
  loop: the handler cleans up and leaves with status 0.
\<close>

definition main :: "nat \<Rightarrow> world \<Rightarrow> outcome \<times> world" where
  "main rounds w =
     (let config_path = getenv (environ w) ''LDES_CONFIG_PATH'' ''/data/ldes-feeds.yaml'';
          image_ref = getenv (environ w) ''LDES2SPARQL_IMAGE'' ''ghcr.io/maregraph-eu/ldes2sparql:latest''
      in case ping w of
           (Inl e, w1) \<Rightarrow> (Exit 1, emit (Print (DockerConnectError e)) w1)
         | (Inr _, w1) \<Rightarrow>
             (case load_ldes_feeds config_path w1 of
                (Inl out, w2) \<Rightarrow> (out, w2)
              | (Inr feeds_config, w2) \<Rightarrow>
                  (case process_feeds feeds_config image_ref w2 of
                     (Inl e, w3) \<Rightarrow> (Uncaught e, w3)
                   | (Inr containers, w3) \<Rightarrow>
                       (Exit 0, cleanup_containers containers (monitor rounds containers w3)))))"

section \<open>Notions used in the statements\<close>

text \<open>
  The override map of a feed: its \<^verbatim>\<open>environment\<close> entry, the empty dictionary when
  the feed has none.
\<close>

definition feed_env_of :: "(ykey \<times> yaml) list \<Rightarrow> (ykey \<times> yaml) list" where
  "feed_env_of fd = (case dget fd ''environment'' (YMap []) of YMap feed_env \<Rightarrow> feed_env | _ \<Rightarrow> [])"

text \<open>
  The feeds for which lines 177-210 raise nothing: the \<^verbatim>\<open>environment\<close> entry is absent
  or a dictionary, and its \<^verbatim>\<open>LOG_LEVEL\<close> is absent or a string.
\<close>

definition feed_ok :: "(ykey \<times> yaml) list \<Rightarrow> bool" where
  "feed_ok fd =
     (case dget fd ''environment'' (YMap []) of
        YMap feed_env \<Rightarrow>
          (case map_of feed_env (KStr ''LOG_LEVEL'') of
             None \<Rightarrow> True
           | Some (YStr s) \<Rightarrow> True
           | Some _ \<Rightarrow> False)
      | _ \<Rightarrow> False)"

text \<open>The value of one variable in the environment built for a feed, if one is built.\<close>

definition resolved ::
  "(string \<Rightarrow> string) \<Rightarrow> (string \<Rightarrow> string option) \<Rightarrow> string \<Rightarrow> ykey \<Rightarrow> (ykey \<times> yaml) list \<Rightarrow> string \<Rightarrow>
     yaml option" where
  "resolved ul env gp feed_name fd k =
     (case env_vars ul env gp feed_name fd of Inl e \<Rightarrow> None | Inr vars \<Rightarrow> map_of vars (KStr k))"

text \<open>
  When the program cannot find out which compose project it belongs to: the host name
  is unset or empty, or looking the container up raises, or the container the daemon
  returns has no labels to read or none of the compose labels.
\<close>

definition labels_unresolvable :: "world \<Rightarrow> bool" where
  "labels_unresolvable w =
     (case environ w ''HOSTNAME'' of
        None \<Rightarrow> True
      | Some h \<Rightarrow>
          h = [] \<or>
          (case fst (containers_get h w) of
             Inl e \<Rightarrow> True
           | Inr c \<Rightarrow>
               (case ci_labels c of
                  None \<Rightarrow> True
                | Some labels \<Rightarrow> list_all (\<lambda>key. map_of labels key = None) compose_keys)))"

text \<open>The same for the network: the last case is a container attached to no network.\<close>

definition network_unresolvable :: "world \<Rightarrow> bool" where
  "network_unresolvable w =
     (case environ w ''HOSTNAME'' of
        None \<Rightarrow> True
      | Some h \<Rightarrow>
          h = [] \<or>
          (case fst (containers_get h w) of
             Inl e \<Rightarrow> True
           | Inr c \<Rightarrow> ci_networks c = []))"

text \<open>The path \<^verbatim>\<open>main\<close> reads the configuration from (line 286).\<close>

definition config_path_of :: "world \<Rightarrow> string" where
  "config_path_of w = getenv (environ w) ''LDES_CONFIG_PATH'' ''/data/ldes-feeds.yaml''"




text \<open>
  The calls of \<^verbatim>\<open>containers.run\<close> in a trace, each with the name it asked for and the
  exception it raised, if any; and the spawn errors the program printed.
\<close>

fun spawn_call :: "event \<Rightarrow> (string \<times> exn option) list" where
  "spawn_call (Api (ContainersRun cfg) r) = [(rc_name cfg, r)]"
| "spawn_call _ = []"

definition spawn_calls :: "event list \<Rightarrow> (string \<times> exn option) list" where
  "spawn_calls evs = concat (map spawn_call evs)"

fun spawn_error :: "event \<Rightarrow> exn list" where
  "spawn_error (Print (SpawnError e)) = [e]"
| "spawn_error _ = []"

definition spawn_errors :: "event list \<Rightarrow> exn list" where
  "spawn_errors evs = concat (map spawn_error evs)"

text \<open>
  The configurations for which nothing outside the \<^verbatim>\<open>try\<close> of the loop raises: every
  feed is a dictionary for which an environment is built, and its state directory can
  be created.
\<close>

definition feeds_ok :: "world \<Rightarrow> (ykey \<times> yaml) list \<Rightarrow> bool" where
  "feeds_ok w items =
     list_all (\<lambda>item.
        (case snd item of YMap fd \<Rightarrow> feed_ok fd | _ \<Rightarrow> False)
        \<and> \<not> mkdir_error w (feed_state_dir (getenv (environ w) ''HOST_PWD'' (cwd w)) (fst item)))
       items"

text \<open>What no call of the Docker API and no step of the program changes.\<close>

definition static_eq :: "world \<Rightarrow> world \<Rightarrow> bool" where
  "static_eq w w' =
     (environ w' = environ w \<and> cwd w' = cwd w \<and> mkdir_error w' = mkdir_error w
      \<and> config_files w' = config_files w \<and> unicode_lower w' = unicode_lower w)"

text \<open>
  The examples below hold no text outside ASCII, so that the parameter of \<open>lower\<close> is
  never consulted in them; they take this function for it.
\<close>

definition ascii_lower :: "string \<Rightarrow> string" where
  "ascii_lower s = map lower_char s"

text \<open>A world in which nothing fails and nothing exists: no configuration file, no container.\<close>

definition bare_world :: world where
  "bare_world =
     \<lparr>environ = Map.empty, cwd = ''/app'', config_files = (\<lambda>p. Inl FileNotFoundError),
      mkdir_error = (\<lambda>d. False), unicode_lower = ascii_lower, daemon = [], faults = [],
      trace = []\<rparr>"

text \<open>A configuration with two feeds, the second with an override.\<close>

definition two_feeds :: "(ykey \<times> yaml) list" where
  "two_feeds =
     [(KStr ''a'', YMap [(KStr ''url'', YStr ''https://a'')]),
      (KStr ''b'', YMap [(KStr ''url'', YStr ''https://b''),
                         (KStr ''environment'', YMap [(KStr ''FOLLOW'', YStr ''true'')])])]"

text \<open>
  The calls of \<^verbatim>\<open>stop\<close> and \<^verbatim>\<open>remove\<close> in a trace, with their outcome, and the
  clean-up errors the program printed.
\<close>

fun stop_call :: "event \<Rightarrow> (string \<times> nat \<times> exn option) list" where
  "stop_call (Api (Stop c t) r) = [(c, t, r)]"
| "stop_call _ = []"

definition stop_calls :: "event list \<Rightarrow> (string \<times> nat \<times> exn option) list" where
  "stop_calls evs = concat (map stop_call evs)"

fun remove_call :: "event \<Rightarrow> (string \<times> exn option) list" where
  "remove_call (Api (Remove c) r) = [(c, r)]"
| "remove_call _ = []"

definition remove_calls :: "event list \<Rightarrow> (string \<times> exn option) list" where
  "remove_calls evs = concat (map remove_call evs)"

fun cleanup_error :: "event \<Rightarrow> exn list" where
  "cleanup_error (Print (CleanupError e)) = [e]"
| "cleanup_error _ = []"

definition cleanup_errors :: "event list \<Rightarrow> exn list" where
  "cleanup_errors evs = concat (map cleanup_error evs)"

text \<open>A world whose daemon runs one container, and the program's handle of it.\<close>

definition one_container :: world where
  "one_container =
     bare_world\<lparr>daemon := [\<lparr>ci_id = ''c1'', ci_name = ''ldes-consumer-a'', ci_status = ''running'',
                              ci_labels = Some [], ci_networks = [''bridge'']\<rparr>]\<rparr>"

definition handle1 :: handle where
  "handle1 = \<lparr>hid = ''c1'', hname = ''ldes-consumer-a''\<rparr>"

text \<open>
  The default endpoints a trace announces, and the value of one variable in the
  environment of each spawn call of a trace.
\<close>

fun announced :: "event \<Rightarrow> string list" where
  "announced (Print (DefaultEndpoint s)) = [s]"
| "announced _ = []"

definition announced_endpoints :: "event list \<Rightarrow> string list" where
  "announced_endpoints evs = concat (map announced evs)"

fun spawn_env :: "string \<Rightarrow> event \<Rightarrow> yaml option list" where
  "spawn_env k (Api (ContainersRun cfg) r) = [map_of (rc_environment cfg) (KStr k)]"
| "spawn_env k _ = []"

definition spawn_envs :: "string \<Rightarrow> event list \<Rightarrow> yaml option list" where
  "spawn_envs k evs = concat (map (spawn_env k) evs)"

text \<open>The configuration of the specification's end-to-end scenario.\<close>

definition sensors_config :: yaml where
  "sensors_config =
     YMap [(KStr ''feeds'',
            YMap [(KStr ''sensors'',
                   YMap [(KStr ''url'', YStr ''https://example/feed''),
                         (KStr ''environment'', YMap [(KStr ''FOLLOW'', YStr ''true'')])])])]"

text \<open>The feed names that are strings.\<close>

fun is_str_key :: "ykey \<Rightarrow> bool" where
  "is_str_key (KStr s) = True"
| "is_str_key _ = False"

text \<open>A configuration whose one feed has a URL and an override named \<^verbatim>\<open>LDES\<close>.\<close>

definition ldes_override_config :: yaml where
  "ldes_override_config =
     YMap [(KStr ''feeds'',
            YMap [(KStr ''sensors'',
                   YMap [(KStr ''url'', YStr ''https://example/feed''),
                         (KStr ''environment'', YMap [(KStr ''LDES'', YStr ''https://other/feed'')])])])]"

text \<open>
  A configuration with three feeds, the second with the override \<^verbatim>\<open>LOG_LEVEL: 10\<close>,
  which YAML reads as an integer.
\<close>

definition three_feeds :: yaml where
  "three_feeds =
     YMap [(KStr ''feeds'',
            YMap [(KStr ''a'', YMap [(KStr ''url'', YStr ''https://a'')]),
                  (KStr ''b'', YMap [(KStr ''url'', YStr ''https://b''),
                                     (KStr ''environment'', YMap [(KStr ''LOG_LEVEL'', YInt 10)])]),
                  (KStr ''c'', YMap [(KStr ''url'', YStr ''https://c'')])])]"

text \<open>A configuration with two feeds, named by the integer \<^verbatim>\<open>1\<close> and by the string \<^verbatim>\<open>'1'\<close>.\<close>

definition twin_feeds :: yaml where
  "twin_feeds =
     YMap [(KStr ''feeds'',
            YMap [(KInt 1, YMap [(KStr ''url'', YStr ''https://a'')]),
                  (KStr ''1'', YMap [(KStr ''url'', YStr ''https://b'')])])]"

section \<open>Properties of the environment of a feed\<close>

lemma add_custom_prefix: "take (length vars) (add_custom fe vars) = vars"
proof (induction fe arbitrary: vars)
  case Nil
  then show ?case by simp
next
  case (Cons kv rest)
  obtain k v where kv: "kv = (k, v)" by (cases kv)
  show ?case
  proof (cases "k \<in> set (map fst vars)")
    case True
    then show ?thesis using Cons [of vars] kv by simp
  next
    case False
    have "take (length vars) (add_custom rest (vars @ [(k, YStr (py_str v))])) =
          take (length vars) (take (length (vars @ [(k, YStr (py_str v))])) (add_custom rest (vars @ [(k, YStr (py_str v))])))"
      by (simp add: min_def)
    also have "\<dots> = take (length vars) (vars @ [(k, YStr (py_str v))])"
      by (simp only: Cons)
    finally show ?thesis using False kv by simp
  qed
qed

lemma add_custom_keys: "fst ` set (add_custom fe vars) = fst ` set vars \<union> fst ` set fe"
  by (induction fe vars rule: add_custom.induct) auto

lemma add_custom_distinct: "distinct (map fst vars) \<Longrightarrow> distinct (map fst (add_custom fe vars))"
  by (induction fe vars rule: add_custom.induct) auto

lemma add_custom_map_of:
  "map_of (add_custom fe vars) k =
     (case map_of vars k of Some v \<Rightarrow> Some v | None \<Rightarrow> map_option (\<lambda>v. YStr (py_str v)) (map_of fe k))"
proof (induction fe arbitrary: vars)
  case Nil
  then show ?case by (simp split: option.splits)
next
  case (Cons kv rest)
  obtain k0 v0 where kv: "kv = (k0, v0)" by (cases kv)
  show ?case
  proof (cases "k0 \<in> set (map fst vars)")
    case True
    then have "map_of vars k0 \<noteq> None"
      by (simp add: map_of_eq_None_iff)
    then show ?thesis using True kv Cons [of vars]
      by (auto split: option.splits)
  next
    case False
    then have none: "map_of vars k0 = None"
      by (simp add: map_of_eq_None_iff)
    have "map_of (vars @ [(k0, YStr (py_str v0))]) k =
          (case map_of vars k of Some v \<Rightarrow> Some v | None \<Rightarrow> if k = k0 then Some (YStr (py_str v0)) else None)"
      by (simp add: map_add_def split: option.splits)
    then show ?thesis using False kv none Cons [of "vars @ [(k0, YStr (py_str v0))]"]
      by (auto split: option.splits)
  qed
qed

lemma base_keys: "base_env_vars ul env tg url fe = Inr base \<Longrightarrow> map fst base = map KStr required_keys"
  by (auto simp: base_env_vars_def required_keys_def split: sum.splits)

lemma required_distinct: "distinct required_keys"
  by (simp add: required_keys_def)

lemma required_distinct_keys: "distinct (map KStr required_keys)"
  by (simp add: distinct_map required_distinct inj_on_def)

lemma env_vars_ok:
  "feed_ok fd \<Longrightarrow> \<exists>base. base_env_vars ul env (target_graph gp n fd (feed_env_of fd)) (dget fd ''url'' (YStr '''')) (feed_env_of fd) = Inr base
      \<and> env_vars ul env gp n fd = Inr (add_custom (feed_env_of fd) base)"
proof -
  assume ok: "feed_ok fd"
  then obtain fe where fe: "dget fd ''environment'' (YMap []) = YMap fe"
    by (auto simp: feed_ok_def split: yaml.splits)
  then have feo: "feed_env_of fd = fe"
    by (simp add: feed_env_of_def)
  obtain s where s: "dget fe ''LOG_LEVEL'' (YStr (getenv env ''LDES_LOG_LEVEL'' (getenv env ''LOG_LEVEL'' ''DEBUG''))) = YStr s"
    using ok fe by (auto simp: feed_ok_def dget_def split: option.splits yaml.splits)
  show ?thesis
    by (simp add: env_vars_def base_env_vars_def fe feo s)
qed

lemma lower_char_not_upper: "lower_char c \<notin> set ''ABCDEFGHIJKLMNOPQRSTUVWXYZ''"
  by (simp add: lower_char_def)

lemma lower_ascii: "is_ascii s \<Longrightarrow> lower ul s = map lower_char s"
  by (simp add: lower_def)

lemma lower_no_upper: "is_ascii s \<Longrightarrow> set (lower ul s) \<inter> set ''ABCDEFGHIJKLMNOPQRSTUVWXYZ'' = {}"
  using lower_char_not_upper by (auto simp: lower_def simp del: set_simps)

lemma resolved_add_custom:
  assumes "feed_ok fd"
  shows "\<exists>base. base_env_vars ul env (target_graph gp n fd (feed_env_of fd)) (dget fd ''url'' (YStr ''''))
                  (feed_env_of fd) = Inr base
           \<and> (\<forall>k. resolved ul env gp n fd k = map_of (add_custom (feed_env_of fd) base) (KStr k))"
  using env_vars_ok [OF assms, of ul env gp n] by (auto simp: resolved_def)

lemma resolved_required:
  assumes "feed_ok fd" and "k \<in> set required_keys"
  shows "\<exists>base. base_env_vars ul env (target_graph gp n fd (feed_env_of fd)) (dget fd ''url'' (YStr ''''))
                  (feed_env_of fd) = Inr base
           \<and> resolved ul env gp n fd k = map_of base (KStr k) \<and> map_of base (KStr k) \<noteq> None"
proof -
  obtain base where b: "base_env_vars ul env (target_graph gp n fd (feed_env_of fd)) (dget fd ''url'' (YStr ''''))
                  (feed_env_of fd) = Inr base"
    and r: "\<And>k. resolved ul env gp n fd k = map_of (add_custom (feed_env_of fd) base) (KStr k)"
    using resolved_add_custom [OF assms(1), of ul env gp n] by blast
  have "KStr k \<in> set (map fst base)" using base_keys [OF b] assms(2) by simp
  then have "map_of base (KStr k) \<noteq> None" by (simp add: map_of_eq_None_iff)
  then show ?thesis using b r by (auto simp: add_custom_map_of)
qed

lemma base_env_vars_shape:
  assumes "base_env_vars ul env tg url fe = Inr base"
  shows "\<exists>ll. base =
         [(KStr ''SPARQL_ENDPOINT'', 
             dget fe ''SPARQL_ENDPOINT'' (YStr (getenv env ''DEFAULT_SPARQL_ENDPOINT'' ''''))),
          (KStr ''TARGET_GRAPH'', tg),
          (KStr ''FOLLOW'', dget fe ''FOLLOW'' (YStr ''false'')),
          (KStr ''MEMBER_BATCH_SIZE'', dget fe ''MEMBER_BATCH_SIZE'' (YStr ''500'')),
          (KStr ''MATERIALIZE'', dget fe ''MATERIALIZE'' (YStr ''false'')),
          (KStr ''LOG_LEVEL'', ll),
          (KStr ''LDES'', url),
          (KStr ''POLLING_FREQUENCY'', dget fe ''POLLING_FREQUENCY'' (YStr ''60000'')),
          (KStr ''FAILURE_IS_FATAL'', dget fe ''FAILURE_IS_FATAL'' (YStr ''false'')),
          (KStr ''OPERATION_MODE'', dget fe ''OPERATION_MODE'' (YStr ''Replication'')),
          (KStr ''SHAPE'', dget fe ''SHAPE'' (YStr ''''))]"
  using assms unfolding base_env_vars_def
  by (cases "py_lower ul (dget fe ''LOG_LEVEL''
                (YStr (getenv env ''LDES_LOG_LEVEL'' (getenv env ''LOG_LEVEL'' ''DEBUG''))))") auto

lemma other_required_keys:
  "remove1 ''LDES'' (remove1 ''LOG_LEVEL'' required_keys) =
     [''SPARQL_ENDPOINT'', ''TARGET_GRAPH'', ''FOLLOW'', ''MEMBER_BATCH_SIZE'', ''MATERIALIZE'',
      ''POLLING_FREQUENCY'', ''FAILURE_IS_FATAL'', ''OPERATION_MODE'', ''SHAPE'']"
  by (simp add: required_keys_def)

lemma base_override:
  assumes k: "k \<in> set required_keys" "k \<noteq> ''LOG_LEVEL''" "k \<noteq> ''LDES''"
    and v: "map_of fe (KStr k) = Some v"
    and b: "base_env_vars ul env (target_graph gp feed_name fd fe) url fe = Inr base"
  shows "map_of base (KStr k) = Some v"
proof -
  obtain ll where base: "base =
         [(KStr ''SPARQL_ENDPOINT'', 
             dget fe ''SPARQL_ENDPOINT'' (YStr (getenv env ''DEFAULT_SPARQL_ENDPOINT'' ''''))),
          (KStr ''TARGET_GRAPH'', target_graph gp feed_name fd fe),
          (KStr ''FOLLOW'', dget fe ''FOLLOW'' (YStr ''false'')),
          (KStr ''MEMBER_BATCH_SIZE'', dget fe ''MEMBER_BATCH_SIZE'' (YStr ''500'')),
          (KStr ''MATERIALIZE'', dget fe ''MATERIALIZE'' (YStr ''false'')),
          (KStr ''LOG_LEVEL'', ll),
          (KStr ''LDES'', url),
          (KStr ''POLLING_FREQUENCY'', dget fe ''POLLING_FREQUENCY'' (YStr ''60000'')),
          (KStr ''FAILURE_IS_FATAL'', dget fe ''FAILURE_IS_FATAL'' (YStr ''false'')),
          (KStr ''OPERATION_MODE'', dget fe ''OPERATION_MODE'' (YStr ''Replication'')),
          (KStr ''SHAPE'', dget fe ''SHAPE'' (YStr ''''))]"
    using base_env_vars_shape [OF b] by blast
  have "k \<in> set (remove1 ''LDES'' (remove1 ''LOG_LEVEL'' required_keys))"
    using k required_distinct
    by (simp only: set_remove1_eq distinct_remove1 Diff_iff singleton_iff simp_thms)
  then have mem: "k \<in> set [''SPARQL_ENDPOINT'', ''TARGET_GRAPH'', ''FOLLOW'', ''MEMBER_BATCH_SIZE'',
      ''MATERIALIZE'', ''POLLING_FREQUENCY'', ''FAILURE_IS_FATAL'', ''OPERATION_MODE'', ''SHAPE'']"
    by (simp only: other_required_keys)
  have "list_all (\<lambda>k. \<forall>v. map_of fe (KStr k) = Some v \<longrightarrow> map_of base (KStr k) = Some v)
          [''SPARQL_ENDPOINT'', ''TARGET_GRAPH'', ''FOLLOW'', ''MEMBER_BATCH_SIZE'',
           ''MATERIALIZE'', ''POLLING_FREQUENCY'', ''FAILURE_IS_FATAL'', ''OPERATION_MODE'', ''SHAPE'']"
    by (simp add: base dget_def target_graph_def)
  then show ?thesis using mem v unfolding list_all_iff by blast
qed

text \<open>
  Claim C1. A feed whose override map has no \<^verbatim>\<open>SPARQL_ENDPOINT\<close> should get the global
  default endpoint: \<^verbatim>\<open>DEFAULT_SPARQL_ENDPOINT\<close> when it is set, and otherwise the endpoint
  computed from the repository name. The program computes and prints that endpoint
  (\<open>default_sparql_endpoint\<close>), but the environment it builds reads
  \<^verbatim>\<open>DEFAULT_SPARQL_ENDPOINT\<close> again with the empty string as fall-back: with the variable
  unset, the feed of the specification's end-to-end scenario gets the empty string, and
  not the endpoint that the same run announces as the default.
\<close>

theorem sparql_endpoint_without_default:
  "resolved ascii_lower Map.empty ''ldes'' (KStr ''sensors'') [(KStr ''url'', YStr ''https://example/feed'')] ''SPARQL_ENDPOINT''
     = Some (YStr '''')
   \<and> default_sparql_endpoint Map.empty = ''http://graphdb:7200/repositories/kgap/statements''
   \<and> announced_endpoints (trace (snd (process_feeds sensors_config ''img'' bare_world)))
       = [''http://graphdb:7200/repositories/kgap/statements'']
   \<and> spawn_envs ''SPARQL_ENDPOINT'' (trace (snd (process_feeds sensors_config ''img'' bare_world)))
       = [Some (YStr '''')]"
proof -
  have "resolved ascii_lower Map.empty ''ldes'' (KStr ''sensors'') [(KStr ''url'', YStr ''https://example/feed'')] ''SPARQL_ENDPOINT''
     = Some (YStr '''')"
    by (simp add: resolved_def env_vars_def base_env_vars_def dget_def getenv_def lower_def)
  moreover have "default_sparql_endpoint Map.empty = ''http://graphdb:7200/repositories/kgap/statements''"
    by (simp add: default_sparql_endpoint_def getenv_def)
  moreover have "announced_endpoints (trace (snd (process_feeds sensors_config ''img'' bare_world)))
       = [''http://graphdb:7200/repositories/kgap/statements'']"
    by code_simp
  moreover have "spawn_envs ''SPARQL_ENDPOINT'' (trace (snd (process_feeds sensors_config ''img'' bare_world)))
       = [Some (YStr '''')]"
    by code_simp
  ultimately show ?thesis by simp
qed

text \<open>
  Claim C3, as stated, speaks of every key that has a default, a shorthand field of the
  feed and an override. The source of a feed is such a key: its default is the empty
  string, its shorthand is the feed's \<^verbatim>\<open>url\<close> field, and the override map can hold
  \<^verbatim>\<open>LDES\<close>. The program never reads that override: for the feed \<^verbatim>\<open>sensors\<close> with the
  URL \<^verbatim>\<open>https://example/feed\<close> and the override \<^verbatim>\<open>LDES: https://other/feed\<close>, the
  container is started with the URL; and for a feed with that override and no URL, it
  is started with the empty string.
\<close>

theorem url_field_beats_override:
  "map_of (feed_env_of [(KStr ''url'', YStr ''https://example/feed''),
                        (KStr ''environment'', YMap [(KStr ''LDES'', YStr ''https://other/feed'')])])
      (KStr ''LDES'') = Some (YStr ''https://other/feed'')
   \<and> resolved ascii_lower Map.empty ''ldes'' (KStr ''sensors'')
        [(KStr ''url'', YStr ''https://example/feed''),
         (KStr ''environment'', YMap [(KStr ''LDES'', YStr ''https://other/feed'')])] ''LDES''
      = Some (YStr ''https://example/feed'')
   \<and> spawn_envs ''LDES'' (trace (snd (process_feeds ldes_override_config ''img'' bare_world)))
      = [Some (YStr ''https://example/feed'')]
   \<and> resolved ascii_lower Map.empty ''ldes'' (KStr ''sensors'')
        [(KStr ''environment'', YMap [(KStr ''LDES'', YStr ''https://other/feed'')])] ''LDES''
      = Some (YStr '''')"
proof -
  have "map_of (feed_env_of [(KStr ''url'', YStr ''https://example/feed''),
                        (KStr ''environment'', YMap [(KStr ''LDES'', YStr ''https://other/feed'')])])
      (KStr ''LDES'') = Some (YStr ''https://other/feed'')"
    by (simp add: feed_env_of_def dget_def)
  moreover have "resolved ascii_lower Map.empty ''ldes'' (KStr ''sensors'')
        [(KStr ''url'', YStr ''https://example/feed''),
         (KStr ''environment'', YMap [(KStr ''LDES'', YStr ''https://other/feed'')])] ''LDES''
      = Some (YStr ''https://example/feed'')"
    by (simp add: resolved_def env_vars_def base_env_vars_def dget_def getenv_def)
  moreover have "spawn_envs ''LDES'' (trace (snd (process_feeds ldes_override_config ''img'' bare_world)))
      = [Some (YStr ''https://example/feed'')]"
    by code_simp
  moreover have "resolved ascii_lower Map.empty ''ldes'' (KStr ''sensors'')
        [(KStr ''environment'', YMap [(KStr ''LDES'', YStr ''https://other/feed'')])] ''LDES''
      = Some (YStr '''')"
    by (simp add: resolved_def env_vars_def base_env_vars_def dget_def getenv_def)
  ultimately show ?thesis by simp
qed

text \<open>
  Claim C3, amended. The target graph of a feed is the one variable that the program
  resolves from three sources: the override \<^verbatim>\<open>TARGET_GRAPH\<close> of the feed's environment,
  the feed's own \<^verbatim>\<open>target_graph\<close> field, and the computed default
  \<^verbatim>\<open>urn:kgap:<prefix>:<feed>\<close>. For every feed for which an environment is built, the
  resolved target graph is the override when there is one; the field when there is no
  override; the computed default when there is neither. The source \<^verbatim>\<open>LDES\<close> has two
  sources only: it is the feed's \<^verbatim>\<open>url\<close> field when there is one and the empty string
  when there is none, whatever the override map holds.
\<close>

theorem target_graph_precedence:
  assumes "feed_ok fd"
  shows "(\<forall>ov. map_of (feed_env_of fd) (KStr ''TARGET_GRAPH'') = Some ov \<longrightarrow>
            resolved ul env gp feed_name fd ''TARGET_GRAPH'' = Some ov)
       \<and> (\<forall>sv. map_of (feed_env_of fd) (KStr ''TARGET_GRAPH'') = None
                \<and> map_of fd (KStr ''target_graph'') = Some sv \<longrightarrow>
            resolved ul env gp feed_name fd ''TARGET_GRAPH'' = Some sv)
       \<and> (map_of (feed_env_of fd) (KStr ''TARGET_GRAPH'') = None
            \<and> map_of fd (KStr ''target_graph'') = None \<longrightarrow>
            resolved ul env gp feed_name fd ''TARGET_GRAPH''
              = Some (YStr (''urn:kgap:'' @ gp @ '':'' @ key_str feed_name)))
       \<and> (\<forall>u. map_of fd (KStr ''url'') = Some u \<longrightarrow>
            resolved ul env gp feed_name fd ''LDES'' = Some u)
       \<and> (map_of fd (KStr ''url'') = None \<longrightarrow>
            resolved ul env gp feed_name fd ''LDES'' = Some (YStr ''''))"
proof -
  have k: "''TARGET_GRAPH'' \<in> set required_keys" and l: "''LDES'' \<in> set required_keys"
    by (simp_all add: required_keys_def)
  obtain base where b: "base_env_vars ul env (target_graph gp feed_name fd (feed_env_of fd)) (dget fd ''url'' (YStr ''''))
                  (feed_env_of fd) = Inr base"
    and r: "resolved ul env gp feed_name fd ''TARGET_GRAPH'' = map_of base (KStr ''TARGET_GRAPH'')"
    using resolved_required [OF assms k, of ul env gp feed_name] by blast
  have r': "resolved ul env gp feed_name fd ''LDES'' = map_of base (KStr ''LDES'')"
    using resolved_required [OF assms l, of ul env gp feed_name] b by auto
  have tg: "map_of base (KStr ''TARGET_GRAPH'') = Some (target_graph gp feed_name fd (feed_env_of fd))"
    using b by (auto simp: base_env_vars_def split: sum.splits)
  have ld: "map_of base (KStr ''LDES'') = Some (dget fd ''url'' (YStr ''''))"
    using b by (auto simp: base_env_vars_def split: sum.splits)
  have "(\<forall>ov. map_of (feed_env_of fd) (KStr ''TARGET_GRAPH'') = Some ov \<longrightarrow>
            resolved ul env gp feed_name fd ''TARGET_GRAPH'' = Some ov)
       \<and> (\<forall>sv. map_of (feed_env_of fd) (KStr ''TARGET_GRAPH'') = None
                \<and> map_of fd (KStr ''target_graph'') = Some sv \<longrightarrow>
            resolved ul env gp feed_name fd ''TARGET_GRAPH'' = Some sv)
       \<and> (map_of (feed_env_of fd) (KStr ''TARGET_GRAPH'') = None
            \<and> map_of fd (KStr ''target_graph'') = None \<longrightarrow>
            resolved ul env gp feed_name fd ''TARGET_GRAPH''
              = Some (YStr (''urn:kgap:'' @ gp @ '':'' @ key_str feed_name)))"
    using r tg by (simp add: target_graph_def dget_def default_target_graph_def)
  moreover have "(\<forall>u. map_of fd (KStr ''url'') = Some u \<longrightarrow>
            resolved ul env gp feed_name fd ''LDES'' = Some u)
       \<and> (map_of fd (KStr ''url'') = None \<longrightarrow>
            resolved ul env gp feed_name fd ''LDES'' = Some (YStr ''''))"
    using r' ld by (simp add: dget_def)
  ultimately show ?thesis by simp
qed

theorem target_graph_precedence_witness:
  "feed_ok [(KStr ''target_graph'', YStr ''urn:s''), (KStr ''environment'', YMap [(KStr ''TARGET_GRAPH'', YStr ''urn:o'')])]
   \<and> resolved ascii_lower Map.empty ''ldes'' (KStr ''sensors'')
        [(KStr ''target_graph'', YStr ''urn:s''), (KStr ''environment'', YMap [(KStr ''TARGET_GRAPH'', YStr ''urn:o'')])]
        ''TARGET_GRAPH'' = Some (YStr ''urn:o'')
   \<and> resolved ascii_lower Map.empty ''ldes'' (KStr ''sensors'')
        [(KStr ''target_graph'', YStr ''urn:s''), (KStr ''environment'', YMap [(KStr ''TARGET_GRAPH'', YStr ''urn:o'')])]
        ''LDES'' = Some (YStr '''')
   \<and> feed_ok [(KStr ''target_graph'', YStr ''urn:s''), (KStr ''environment'', YMap [(KStr ''FOLLOW'', YStr ''true'')])]
   \<and> resolved ascii_lower Map.empty ''ldes'' (KStr ''sensors'')
        [(KStr ''target_graph'', YStr ''urn:s''), (KStr ''environment'', YMap [(KStr ''FOLLOW'', YStr ''true'')])]
        ''TARGET_GRAPH'' = Some (YStr ''urn:s'')
   \<and> feed_ok [(KStr ''url'', YStr ''https://example/feed'')]
   \<and> resolved ascii_lower Map.empty ''ldes'' (KStr ''sensors'') [(KStr ''url'', YStr ''https://example/feed'')]
        ''TARGET_GRAPH'' = Some (YStr ''urn:kgap:ldes:sensors'')
   \<and> resolved ascii_lower Map.empty ''ldes'' (KStr ''sensors'') [(KStr ''url'', YStr ''https://example/feed'')]
        ''LDES'' = Some (YStr ''https://example/feed'')"
proof -
  have ok1: "feed_ok [(KStr ''target_graph'', YStr ''urn:s''), (KStr ''environment'', YMap [(KStr ''TARGET_GRAPH'', YStr ''urn:o'')])]"
    and ok2: "feed_ok [(KStr ''target_graph'', YStr ''urn:s''), (KStr ''environment'', YMap [(KStr ''FOLLOW'', YStr ''true'')])]"
    and ok3: "feed_ok [(KStr ''url'', YStr ''https://example/feed'')]"
    by (simp_all add: feed_ok_def dget_def)
  show ?thesis
    using ok1 ok2 ok3
      target_graph_precedence [OF ok1, of ascii_lower Map.empty "''ldes''" "KStr ''sensors''"]
      target_graph_precedence [OF ok2, of ascii_lower Map.empty "''ldes''" "KStr ''sensors''"]
      target_graph_precedence [OF ok3, of ascii_lower Map.empty "''ldes''" "KStr ''sensors''"]
    by (simp add: feed_env_of_def dget_def)
qed

text \<open>
  Claim C4. For every feed for which an environment is built, the environment starts
  with the eleven required keys, in the order and with the values of the dictionary
  literal; no key occurs twice; its keys are the required keys and the keys of the
  override map; and every override key outside the required set is there with the
  \<^verbatim>\<open>str\<close> of its value.
\<close>

theorem env_vars_required_and_custom:
  assumes "feed_ok fd"
  shows "\<exists>vars base.
           env_vars ul env gp feed_name fd = Inr vars
         \<and> base_env_vars ul env (target_graph gp feed_name fd (feed_env_of fd)) (dget fd ''url'' (YStr ''''))
             (feed_env_of fd) = Inr base
         \<and> map fst base = map KStr required_keys
         \<and> length required_keys = 11
         \<and> take 11 vars = base
         \<and> distinct (map fst vars)
         \<and> set (map fst vars) = KStr ` set required_keys \<union> set (map fst (feed_env_of fd))
         \<and> (\<forall>k v. k \<notin> KStr ` set required_keys \<and> map_of (feed_env_of fd) k = Some v \<longrightarrow>
                map_of vars k = Some (YStr (py_str v)))"
proof -
  obtain base where b: "base_env_vars ul env (target_graph gp feed_name fd (feed_env_of fd))
        (dget fd ''url'' (YStr '''')) (feed_env_of fd) = Inr base"
    and v: "env_vars ul env gp feed_name fd = Inr (add_custom (feed_env_of fd) base)"
    using env_vars_ok [OF assms, of ul env gp feed_name] by blast
  have keys: "map fst base = map KStr required_keys" by (rule base_keys [OF b])
  have len: "length required_keys = 11" by (simp add: required_keys_def)
  have "length base = 11" using keys len by (metis length_map)
  then have pre: "take 11 (add_custom (feed_env_of fd) base) = base"
    using add_custom_prefix [of base "feed_env_of fd"] by simp
  have dist: "distinct (map fst (add_custom (feed_env_of fd) base))"
    by (rule add_custom_distinct) (simp only: keys required_distinct_keys)
  have bk: "fst ` set base = KStr ` set required_keys"
    using keys by (metis set_map)
  have ks: "set (map fst (add_custom (feed_env_of fd) base)) = KStr ` set required_keys \<union> set (map fst (feed_env_of fd))"
    using add_custom_keys [of "feed_env_of fd" base] bk by simp
  have cust: "map_of (add_custom (feed_env_of fd) base) k = Some (YStr (py_str v))"
    if "k \<notin> KStr ` set required_keys" and "map_of (feed_env_of fd) k = Some v" for k v
  proof -
    have "map_of base k = None" using that(1) bk by (simp add: map_of_eq_None_iff)
    then show ?thesis using that(2) by (simp add: add_custom_map_of)
  qed
  show ?thesis using v b keys len pre dist ks cust by blast
qed

theorem env_vars_required_and_custom_witness:
  "feed_ok [(KStr ''url'', YStr ''https://example/feed''),
            (KStr ''environment'', YMap [(KStr ''FOLLOW'', YStr ''true''), (KStr ''RETRIES'', YInt 3)])]
   \<and> (\<exists>vars. env_vars ascii_lower Map.empty ''ldes'' (KStr ''sensors'')
                [(KStr ''url'', YStr ''https://example/feed''),
                 (KStr ''environment'', YMap [(KStr ''FOLLOW'', YStr ''true''), (KStr ''RETRIES'', YInt 3)])] = Inr vars
            \<and> map fst vars = map KStr (required_keys @ [''RETRIES''])
            \<and> map_of vars (KStr ''FOLLOW'') = Some (YStr ''true'')
            \<and> map_of vars (KStr ''RETRIES'') = Some (YStr ''3''))"
proof -
  have ok: "feed_ok [(KStr ''url'', YStr ''https://example/feed''),
            (KStr ''environment'', YMap [(KStr ''FOLLOW'', YStr ''true''), (KStr ''RETRIES'', YInt 3)])]"
    by (simp add: feed_ok_def dget_def)
  show ?thesis
    using ok env_vars_required_and_custom [OF ok, of ascii_lower Map.empty "''ldes''" "KStr ''sensors''"]
    by (simp add: env_vars_def base_env_vars_def dget_def getenv_def required_keys_def
        str_int_def digits.simps [of 3] digit_char_def)
qed

text \<open>
  Claim C10, as stated, says that every required key other than \<^verbatim>\<open>LOG_LEVEL\<close> receives
  its override value unchanged. \<^verbatim>\<open>LDES\<close> is a required key, and the program never reads
  it from the override map: a feed with the URL \<^verbatim>\<open>https://a\<close> and the override
  \<^verbatim>\<open>LDES: https://b\<close> gets \<^verbatim>\<open>https://a\<close>.
\<close>

theorem ldes_override_ignored:
  "''LDES'' \<in> set required_keys
   \<and> map_of (feed_env_of [(KStr ''url'', YStr ''https://a''), (KStr ''environment'', YMap [(KStr ''LDES'', YStr ''https://b'')])])
        (KStr ''LDES'') = Some (YStr ''https://b'')
   \<and> resolved ascii_lower Map.empty ''ldes'' (KStr ''f'')
        [(KStr ''url'', YStr ''https://a''), (KStr ''environment'', YMap [(KStr ''LDES'', YStr ''https://b'')])] ''LDES''
      = Some (YStr ''https://a'')"
  by (simp add: required_keys_def feed_env_of_def resolved_def env_vars_def base_env_vars_def
      dget_def getenv_def lower_def)

text \<open>
  Claim C10, amended. For every feed for which an environment is built, \<^verbatim>\<open>LOG_LEVEL\<close> is
  what \<^verbatim>\<open>str.lower\<close> makes of the string it resolves to (the override when the feed
  gives one, else \<^verbatim>\<open>LDES_LOG_LEVEL\<close>, \<^verbatim>\<open>LOG_LEVEL\<close> or \<^verbatim>\<open>DEBUG\<close>); when that string is
  ASCII, this is the string with the letters \<^verbatim>\<open>A\<close> to \<^verbatim>\<open>Z\<close> replaced by \<^verbatim>\<open>a\<close> to
  \<^verbatim>\<open>z\<close>, and it holds no upper-case ASCII letter. Each of the nine required keys other
  than \<^verbatim>\<open>LOG_LEVEL\<close> and \<^verbatim>\<open>LDES\<close> receives its override value unchanged; and \<^verbatim>\<open>LDES\<close>
  is the feed's \<^verbatim>\<open>url\<close> field, whatever the override map holds.
\<close>

theorem log_level_lowercased:
  assumes "feed_ok fd"
  shows "(\<exists>s. dget (feed_env_of fd) ''LOG_LEVEL''
               (YStr (getenv env ''LDES_LOG_LEVEL'' (getenv env ''LOG_LEVEL'' ''DEBUG''))) = YStr s
            \<and> resolved ul env gp feed_name fd ''LOG_LEVEL'' = Some (YStr (lower ul s))
            \<and> (is_ascii s \<longrightarrow>
                  lower ul s = map lower_char s
                \<and> set (lower ul s) \<inter> set ''ABCDEFGHIJKLMNOPQRSTUVWXYZ'' = {}))
       \<and> (\<forall>k v. k \<in> set required_keys \<and> k \<noteq> ''LOG_LEVEL'' \<and> k \<noteq> ''LDES''
                 \<and> map_of (feed_env_of fd) (KStr k) = Some v \<longrightarrow>
               resolved ul env gp feed_name fd k = Some v)
       \<and> resolved ul env gp feed_name fd ''LDES'' = Some (dget fd ''url'' (YStr ''''))"
proof -
  obtain fe where fe: "dget fd ''environment'' (YMap []) = YMap fe"
    using assms by (auto simp: feed_ok_def split: yaml.splits)
  then have feo: "feed_env_of fd = fe"
    by (simp add: feed_env_of_def)
  obtain s where s: "dget fe ''LOG_LEVEL''
      (YStr (getenv env ''LDES_LOG_LEVEL'' (getenv env ''LOG_LEVEL'' ''DEBUG''))) = YStr s"
    using assms fe by (auto simp: feed_ok_def dget_def split: option.splits yaml.splits)
  obtain base where b: "base_env_vars ul env (target_graph gp feed_name fd fe)
        (dget fd ''url'' (YStr '''')) fe = Inr base"
    using env_vars_ok [OF assms, of ul env gp feed_name] feo by auto
  have r: "resolved ul env gp feed_name fd k = map_of base (KStr k)" if "k \<in> set required_keys" for k
    using resolved_required [OF assms that, of ul env gp feed_name] b feo by auto
  obtain ll where base: "base =
         [(KStr ''SPARQL_ENDPOINT'',
             dget fe ''SPARQL_ENDPOINT'' (YStr (getenv env ''DEFAULT_SPARQL_ENDPOINT'' ''''))),
          (KStr ''TARGET_GRAPH'', target_graph gp feed_name fd fe),
          (KStr ''FOLLOW'', dget fe ''FOLLOW'' (YStr ''false'')),
          (KStr ''MEMBER_BATCH_SIZE'', dget fe ''MEMBER_BATCH_SIZE'' (YStr ''500'')),
          (KStr ''MATERIALIZE'', dget fe ''MATERIALIZE'' (YStr ''false'')),
          (KStr ''LOG_LEVEL'', ll),
          (KStr ''LDES'', dget fd ''url'' (YStr '''')),
          (KStr ''POLLING_FREQUENCY'', dget fe ''POLLING_FREQUENCY'' (YStr ''60000'')),
          (KStr ''FAILURE_IS_FATAL'', dget fe ''FAILURE_IS_FATAL'' (YStr ''false'')),
          (KStr ''OPERATION_MODE'', dget fe ''OPERATION_MODE'' (YStr ''Replication'')),
          (KStr ''SHAPE'', dget fe ''SHAPE'' (YStr ''''))]"
    using base_env_vars_shape [OF b] by blast
  have "ll = YStr (lower ul s)"
    using b unfolding base_env_vars_def s base by simp
  then have ll: "resolved ul env gp feed_name fd ''LOG_LEVEL'' = Some (YStr (lower ul s))"
    using r [of "''LOG_LEVEL''"] by (simp add: required_keys_def base)
  have ld: "resolved ul env gp feed_name fd ''LDES'' = Some (dget fd ''url'' (YStr ''''))"
    using r [of "''LDES''"] by (simp add: required_keys_def base)
  have ov: "resolved ul env gp feed_name fd k = Some v"
    if "k \<in> set required_keys" "k \<noteq> ''LOG_LEVEL''" "k \<noteq> ''LDES''" "map_of fe (KStr k) = Some v" for k v
    using base_override [OF that b] r [OF that(1)] by simp
  have "\<forall>k v. k \<in> set required_keys \<and> k \<noteq> ''LOG_LEVEL'' \<and> k \<noteq> ''LDES''
                 \<and> map_of (feed_env_of fd) (KStr k) = Some v \<longrightarrow>
               resolved ul env gp feed_name fd k = Some v"
    using ov feo by blast
  moreover have "\<exists>s. dget (feed_env_of fd) ''LOG_LEVEL''
               (YStr (getenv env ''LDES_LOG_LEVEL'' (getenv env ''LOG_LEVEL'' ''DEBUG''))) = YStr s
            \<and> resolved ul env gp feed_name fd ''LOG_LEVEL'' = Some (YStr (lower ul s))
            \<and> (is_ascii s \<longrightarrow>
                  lower ul s = map lower_char s
                \<and> set (lower ul s) \<inter> set ''ABCDEFGHIJKLMNOPQRSTUVWXYZ'' = {})"
    using s ll lower_ascii [of s ul] lower_no_upper [of s ul] feo by blast
  ultimately show ?thesis using ld by blast
qed

theorem log_level_lowercased_witness:
  "feed_ok [(KStr ''url'', YStr ''https://a''),
            (KStr ''environment'', YMap [(KStr ''LOG_LEVEL'', YStr ''INFO''), (KStr ''FOLLOW'', YBool True)])]
   \<and> is_ascii ''INFO''
   \<and> resolved ascii_lower Map.empty ''ldes'' (KStr ''f'')
        [(KStr ''url'', YStr ''https://a''),
         (KStr ''environment'', YMap [(KStr ''LOG_LEVEL'', YStr ''INFO''), (KStr ''FOLLOW'', YBool True)])] ''LOG_LEVEL''
      = Some (YStr ''info'')
   \<and> resolved ascii_lower Map.empty ''ldes'' (KStr ''f'')
        [(KStr ''url'', YStr ''https://a''),
         (KStr ''environment'', YMap [(KStr ''LOG_LEVEL'', YStr ''INFO''), (KStr ''FOLLOW'', YBool True)])] ''FOLLOW''
      = Some (YBool True)"
proof -
  have ok: "feed_ok [(KStr ''url'', YStr ''https://a''),
            (KStr ''environment'', YMap [(KStr ''LOG_LEVEL'', YStr ''INFO''), (KStr ''FOLLOW'', YBool True)])]"
    by (simp add: feed_ok_def dget_def)
  have fe: "feed_env_of [(KStr ''url'', YStr ''https://a''),
            (KStr ''environment'', YMap [(KStr ''LOG_LEVEL'', YStr ''INFO''), (KStr ''FOLLOW'', YBool True)])]
           = [(KStr ''LOG_LEVEL'', YStr ''INFO''), (KStr ''FOLLOW'', YBool True)]"
    by (simp add: feed_env_of_def dget_def)
  have k: "''FOLLOW'' \<in> set required_keys" by (simp add: required_keys_def)
  have asc: "is_ascii ''INFO''" by (simp add: is_ascii_def)
  have lo: "lower ascii_lower ''INFO'' = ''info''" by (simp add: lower_def is_ascii_def lower_char_def)
  show ?thesis
    using ok k asc log_level_lowercased [OF ok, of Map.empty ascii_lower "''ldes''" "KStr ''f''"]
    unfolding fe by (simp add: dget_def lo lower_char_def)
qed

section \<open>Properties of the detection\<close>

lemma get_compose_labels_caught:
  "fst (compose_labels_body w) = Inl e \<Longrightarrow> get_compose_labels w = ([], emit (Print (ComposeUndetected e)) (snd (compose_labels_body w)))"
  by (cases "compose_labels_body w") (simp add: get_compose_labels_def)

lemma get_parent_network_caught:
  "fst (parent_network_body w) = Inl e \<Longrightarrow> get_parent_network w = (None, emit (Print (NetworkUndetected e)) (snd (parent_network_body w)))"
  by (cases "parent_network_body w") (simp add: get_parent_network_def)

lemma labels_unresolvable_empty: "labels_unresolvable w \<Longrightarrow> fst (get_compose_labels w) = []"
  unfolding labels_unresolvable_def get_compose_labels_def compose_labels_body_def
  by (auto simp: list_all_iff split: option.splits sum.splits prod.splits if_splits)

lemma network_unresolvable_none: "network_unresolvable w \<Longrightarrow> fst (get_parent_network w) = None"
  unfolding network_unresolvable_def get_parent_network_def parent_network_body_def
  by (auto split: option.splits sum.splits prod.splits if_splits list.splits)

text \<open>
  Claim C9. The detection of the compose labels and of the network never fails the run.
  Whenever the program's own container cannot be resolved (no host name, the look-up
  raises, or the attributes are missing) \<^verbatim>\<open>get_compose_labels\<close> returns the empty
  dictionary and \<^verbatim>\<open>get_parent_network\<close> returns \<^verbatim>\<open>None\<close>; and whatever exception the body
  of either function raises is caught there: the function prints it and returns the
  empty result.
\<close>

theorem detection_degrades:
  "(labels_unresolvable w \<longrightarrow> fst (get_compose_labels w) = [])
   \<and> (network_unresolvable w \<longrightarrow> fst (get_parent_network w) = None)
   \<and> (\<forall>e. fst (compose_labels_body w) = Inl e \<longrightarrow>
         get_compose_labels w = ([], emit (Print (ComposeUndetected e)) (snd (compose_labels_body w))))
   \<and> (\<forall>e. fst (parent_network_body w) = Inl e \<longrightarrow>
         get_parent_network w = (None, emit (Print (NetworkUndetected e)) (snd (parent_network_body w))))"
  using labels_unresolvable_empty network_unresolvable_none get_compose_labels_caught
    get_parent_network_caught by blast

theorem detection_degrades_witness:
  "labels_unresolvable (bare_world\<lparr>environ := [''HOSTNAME'' \<mapsto> ''0123456789ab''], faults := [True]\<rparr>)
   \<and> network_unresolvable (bare_world\<lparr>environ := [''HOSTNAME'' \<mapsto> ''0123456789ab''], faults := [True]\<rparr>)
   \<and> fst (compose_labels_body (bare_world\<lparr>environ := [''HOSTNAME'' \<mapsto> ''0123456789ab''], faults := [True]\<rparr>))
       = Inl APIError
   \<and> fst (parent_network_body (bare_world\<lparr>environ := [''HOSTNAME'' \<mapsto> ''0123456789ab''], faults := [True]\<rparr>))
       = Inl APIError
   \<and> fst (get_compose_labels (bare_world\<lparr>environ := [''HOSTNAME'' \<mapsto> ''0123456789ab''], faults := [True]\<rparr>)) = []
   \<and> fst (get_parent_network (bare_world\<lparr>environ := [''HOSTNAME'' \<mapsto> ''0123456789ab''], faults := [True]\<rparr>)) = None
   \<and> trace (snd (get_compose_labels (bare_world\<lparr>environ := [''HOSTNAME'' \<mapsto> ''0123456789ab''], faults := [True]\<rparr>)))
       = [Api (ContainersGet ''0123456789ab'') (Some APIError), Print (ComposeUndetected APIError)]"
proof -
  let ?w = "bare_world\<lparr>environ := [''HOSTNAME'' \<mapsto> ''0123456789ab''], faults := [True]\<rparr>"
  have g: "containers_get ''0123456789ab'' ?w =
      (Inl APIError, ?w\<lparr>faults := [], trace := [Api (ContainersGet ''0123456789ab'') (Some APIError)]\<rparr>)"
    by (simp add: containers_get_def api_def next_fault_def emit_def raised_def bare_world_def)
  have a: "labels_unresolvable ?w" by (simp add: labels_unresolvable_def g)
  have b: "network_unresolvable ?w" by (simp add: network_unresolvable_def g)
  have c: "compose_labels_body ?w = (Inl APIError, ?w\<lparr>faults := [], trace := [Api (ContainersGet ''0123456789ab'') (Some APIError)]\<rparr>)"
    by (simp add: compose_labels_body_def g)
  have d: "parent_network_body ?w = (Inl APIError, ?w\<lparr>faults := [], trace := [Api (ContainersGet ''0123456789ab'') (Some APIError)]\<rparr>)"
    by (simp add: parent_network_body_def g)
  show ?thesis
    using a b c d detection_degrades [of ?w]
    by (simp add: emit_def)
qed

section \<open>Properties of the start of \<^verbatim>\<open>main\<close>\<close>

lemma ping_effect:
  "ping w = (r, w') \<Longrightarrow>
     trace w' = trace w @ [Api Ping (raised r)] \<and> daemon w' = daemon w \<and> environ w' = environ w
     \<and> config_files w' = config_files w"
  by (auto simp: ping_def api_def next_fault_def emit_def split: list.splits if_splits)

lemma load_failure:
  assumes "config_files w p = Inl e" and "e = FileNotFoundError \<or> e = YAMLError"
  shows "load_ldes_feeds p w =
           (Inl (Exit 1),
            w\<lparr>trace := trace w @ [OpenConfig p (Some e),
                 Print (if e = FileNotFoundError then ConfigNotFound p else YamlParseError)]\<rparr>)"
  using assms by (auto simp: load_ldes_feeds_def emit_def Let_def)

text \<open>
  Claim C2, as stated, says that the configuration is loaded before the connection to
  the Docker daemon is made, so that a missing configuration file ends the process
  before any call of the runtime API. The program pings the daemon first: with a
  reachable daemon and no configuration file the ping is made before the file is
  opened, and with an unreachable daemon the file is never opened.
\<close>

theorem ping_precedes_config:
  "fst (main 0 bare_world) = Exit 1
   \<and> trace (snd (main 0 bare_world)) =
       [Api Ping None, OpenConfig ''/data/ldes-feeds.yaml'' (Some FileNotFoundError),
        Print (ConfigNotFound ''/data/ldes-feeds.yaml'')]
   \<and> fst (main 0 (bare_world\<lparr>faults := [True]\<rparr>)) = Exit 1
   \<and> trace (snd (main 0 (bare_world\<lparr>faults := [True]\<rparr>))) =
       [Api Ping (Some APIError), Print (DockerConnectError APIError)]"
  by (simp add: main_def ping_def api_def next_fault_def emit_def raised_def bare_world_def
      load_ldes_feeds_def getenv_def Let_def)

text \<open>
  Claim C2, amended. \<^verbatim>\<open>main\<close> connects to the daemon before it loads the configuration.
  When the ping raises, the process ends with status 1 having done nothing else: the
  configuration is not opened and the daemon's containers are unchanged. When the ping
  succeeds and the configuration file is missing or is not valid YAML, the process ends
  with status 1 after the ping and the attempt to read the file: no other call of the
  runtime API is made and the daemon's containers are unchanged.
\<close>

theorem startup_failures:
  "(\<forall>e. fst (ping w) = Inl e \<longrightarrow>
        fst (main rounds w) = Exit 1
      \<and> trace (snd (main rounds w)) = trace w @ [Api Ping (Some e), Print (DockerConnectError e)]
      \<and> daemon (snd (main rounds w)) = daemon w)
   \<and> (\<forall>e. fst (ping w) = Inr () \<and> config_files w (config_path_of w) = Inl e
          \<and> (e = FileNotFoundError \<or> e = YAMLError) \<longrightarrow>
        fst (main rounds w) = Exit 1
      \<and> trace (snd (main rounds w)) =
          trace w @ [Api Ping None, OpenConfig (config_path_of w) (Some e),
                     Print (if e = FileNotFoundError then ConfigNotFound (config_path_of w)
                            else YamlParseError)]
      \<and> daemon (snd (main rounds w)) = daemon w)"
proof (intro conjI allI impI)
  fix e assume a: "fst (ping w) = Inl e"
  obtain w1 where p: "ping w = (Inl e, w1)" using a by (cases "ping w") auto
  have m: "main rounds w = (Exit 1, emit (Print (DockerConnectError e)) w1)"
    by (simp add: main_def p)
  show "fst (main rounds w) = Exit 1" by (simp add: m)
  show "trace (snd (main rounds w)) = trace w @ [Api Ping (Some e), Print (DockerConnectError e)]"
    using ping_effect [OF p] by (simp add: m emit_def raised_def)
  show "daemon (snd (main rounds w)) = daemon w"
    using ping_effect [OF p] by (simp add: m emit_def)
next
  fix e assume a: "fst (ping w) = Inr () \<and> config_files w (config_path_of w) = Inl e
          \<and> (e = FileNotFoundError \<or> e = YAMLError)"
  obtain w1 where p: "ping w = (Inr (), w1)" using a by (cases "ping w") auto
  note pe = ping_effect [OF p]
  have c: "config_files w1 (config_path_of w) = Inl e" using a pe by simp
  have l: "load_ldes_feeds (config_path_of w) w1 =
           (Inl (Exit 1),
            w1\<lparr>trace := trace w1 @ [OpenConfig (config_path_of w) (Some e),
                 Print (if e = FileNotFoundError then ConfigNotFound (config_path_of w) else YamlParseError)]\<rparr>)"
    using load_failure [OF c] a by blast
  have m: "main rounds w = (Exit 1, w1\<lparr>trace := trace w1 @ [OpenConfig (config_path_of w) (Some e),
                 Print (if e = FileNotFoundError then ConfigNotFound (config_path_of w) else YamlParseError)]\<rparr>)"
    using l by (simp add: main_def p config_path_of_def)
  show "fst (main rounds w) = Exit 1" by (simp add: m)
  show "trace (snd (main rounds w)) =
          trace w @ [Api Ping None, OpenConfig (config_path_of w) (Some e),
                     Print (if e = FileNotFoundError then ConfigNotFound (config_path_of w)
                            else YamlParseError)]"
    using pe by (simp add: m raised_def)
  show "daemon (snd (main rounds w)) = daemon w"
    using pe by (simp add: m)
qed

theorem startup_failures_witness:
  "fst (ping (bare_world\<lparr>faults := [True]\<rparr>)) = Inl APIError
   \<and> fst (main 3 (bare_world\<lparr>faults := [True]\<rparr>)) = Exit 1
   \<and> trace (snd (main 3 (bare_world\<lparr>faults := [True]\<rparr>)))
       = [Api Ping (Some APIError), Print (DockerConnectError APIError)]
   \<and> fst (ping (bare_world\<lparr>config_files := (\<lambda>p. Inl YAMLError)\<rparr>)) = Inr ()
   \<and> config_files (bare_world\<lparr>config_files := (\<lambda>p. Inl YAMLError)\<rparr>)
        (config_path_of (bare_world\<lparr>config_files := (\<lambda>p. Inl YAMLError)\<rparr>)) = Inl YAMLError
   \<and> fst (main 3 (bare_world\<lparr>config_files := (\<lambda>p. Inl YAMLError)\<rparr>)) = Exit 1
   \<and> trace (snd (main 3 (bare_world\<lparr>config_files := (\<lambda>p. Inl YAMLError)\<rparr>)))
       = [Api Ping None, OpenConfig ''/data/ldes-feeds.yaml'' (Some YAMLError), Print YamlParseError]"
proof -
  have a: "fst (ping (bare_world\<lparr>faults := [True]\<rparr>)) = Inl APIError"
    by (simp add: ping_def api_def next_fault_def bare_world_def)
  have b: "fst (ping (bare_world\<lparr>config_files := (\<lambda>p. Inl YAMLError)\<rparr>)) = Inr ()"
    by (simp add: ping_def api_def next_fault_def bare_world_def)
  have c: "config_path_of (bare_world\<lparr>config_files := (\<lambda>p. Inl YAMLError)\<rparr>) = ''/data/ldes-feeds.yaml''"
    by (simp add: config_path_of_def getenv_def bare_world_def)
  have d: "trace (bare_world\<lparr>faults := [True]\<rparr>) = []"
      "trace (bare_world\<lparr>config_files := (\<lambda>p. Inl YAMLError)\<rparr>) = []"
    by (simp_all add: bare_world_def)
  show ?thesis
    using a b startup_failures [of "bare_world\<lparr>faults := [True]\<rparr>" 3]
      startup_failures [of "bare_world\<lparr>config_files := (\<lambda>p. Inl YAMLError)\<rparr>" 3]
    by (simp add: c d)
qed

section \<open>Properties of the monitoring loop\<close>











section \<open>Properties of the spawning of the containers\<close>

lemma static_eq_refl: "static_eq w w"
  by (simp add: static_eq_def)

lemma static_eq_trans: "static_eq w w1 \<Longrightarrow> static_eq w1 w2 \<Longrightarrow> static_eq w w2"
  by (simp add: static_eq_def)

lemma spawn_calls_append: "spawn_calls (xs @ ys) = spawn_calls xs @ spawn_calls ys"
  by (simp add: spawn_calls_def)

lemma spawn_errors_append: "spawn_errors (xs @ ys) = spawn_errors xs @ spawn_errors ys"
  by (simp add: spawn_errors_def)

lemma fresh_id_bound: "c \<in> set cs \<Longrightarrow> length (ci_id c) < length (fresh_id cs)"
  by (induction cs) (auto simp: fresh_id_def)

lemma fresh_id_new: "fresh_id cs \<notin> set (map ci_id cs)"
  using fresh_id_bound by fastforce

lemma containers_get_effect:
  assumes "containers_get h w = (r, w')"
  shows "trace w' = trace w @ [Api (ContainersGet h) (raised r)]"
    and "static_eq w w'" and "daemon w' = daemon w"
  using assms
  by (auto simp: containers_get_def api_def next_fault_def emit_def static_eq_def
      split: list.splits if_splits option.splits)

lemma containers_run_effect:
  assumes "containers_run cfg w = (r, w')"
  shows "trace w' = trace w @ [Api (ContainersRun cfg) (raised r)]"
    and "static_eq w w'"
    and "case r of
           Inl e \<Rightarrow> daemon w' = daemon w
         | Inr h \<Rightarrow> hname h = rc_name cfg \<and> hid h = fresh_id (daemon w)
                   \<and> (\<exists>c. daemon w' = daemon w @ [c] \<and> ci_id c = hid h \<and> ci_name c = hname h)"
  using assms
  by (auto simp: containers_run_def api_def next_fault_def emit_def static_eq_def Let_def
      split: list.splits if_splits option.splits)

lemma mkdir_effect:
  "mkdir d w = (r, w') \<Longrightarrow>
     trace w' = trace w @ [Mkdir d r] \<and> static_eq w w' \<and> daemon w' = daemon w
     \<and> (r = None \<longleftrightarrow> \<not> mkdir_error w d)"
  by (auto simp: mkdir_def emit_def static_eq_def Let_def split: if_splits)

lemma spawn_effect:
  assumes "spawn L n vars w = (r, w')"
  shows "\<exists>evs x. trace w' = trace w @ evs \<and> spawn_calls evs = [(container_name n, x)]
           \<and> spawn_errors evs = (case x of None \<Rightarrow> [] | Some e \<Rightarrow> [e])
           \<and> static_eq w w'
           \<and> (case r of
                 None \<Rightarrow> x \<noteq> None \<and> daemon w' = daemon w
               | Some h \<Rightarrow> x = None \<and> hname h = container_name n \<and> hid h = fresh_id (daemon w)
                   \<and> (\<exists>c. daemon w' = daemon w @ [c] \<and> ci_id c = hid h \<and> ci_name c = hname h))"
proof -
  obtain r0 w1 where run: "containers_run (container_config L n vars) w = (r0, w1)"
    by (cases "containers_run (container_config L n vars) w")
  note eff = containers_run_effect [OF run]
  have name: "rc_name (container_config L n vars) = container_name n"
    by (simp add: container_config_def)
  show ?thesis
  proof (cases r0)
    case (Inl e)
    then have r: "r = None" and w': "w' = emit (Print (SpawnError e)) w1"
      using assms run by (simp_all add: spawn_def)
    have "trace w' = trace w @ [Api (ContainersRun (container_config L n vars)) (Some e), Print (SpawnError e)]"
      using eff(1) Inl by (simp add: w' emit_def raised_def)
    moreover have "static_eq w w'" using eff(2) by (simp add: w' emit_def static_eq_def)
    moreover have "case r of
                 None \<Rightarrow> Some e \<noteq> None \<and> daemon w' = daemon w
               | Some h \<Rightarrow> Some e = None \<and> hname h = container_name n \<and> hid h = fresh_id (daemon w)
                   \<and> (\<exists>c. daemon w' = daemon w @ [c] \<and> ci_id c = hid h \<and> ci_name c = hname h)"
      using eff(3) Inl by (simp add: r w' emit_def)
    moreover have "spawn_calls [Api (ContainersRun (container_config L n vars)) (Some e), Print (SpawnError e)]
        = [(container_name n, Some e)]"
      using name by (simp add: spawn_calls_def)
    moreover have "spawn_errors [Api (ContainersRun (container_config L n vars)) (Some e), Print (SpawnError e)]
        = (case Some e of None \<Rightarrow> [] | Some e \<Rightarrow> [e])"
      by (simp add: spawn_errors_def)
    ultimately show ?thesis by blast
  next
    case (Inr h)
    then have r: "r = Some h" and w': "w' = emit (Print (ContainerStarted (take 12 (hid h)))) w1"
      using assms run by (simp_all add: spawn_def)
    have "trace w' = trace w @ [Api (ContainersRun (container_config L n vars)) None,
            Print (ContainerStarted (take 12 (hid h)))]"
      using eff(1) Inr by (simp add: w' emit_def raised_def)
    moreover have "static_eq w w'" using eff(2) by (simp add: w' emit_def static_eq_def)
    moreover have "case r of
                 None \<Rightarrow> (None :: exn option) \<noteq> None \<and> daemon w' = daemon w
               | Some h \<Rightarrow> (None :: exn option) = None \<and> hname h = container_name n \<and> hid h = fresh_id (daemon w)
                   \<and> (\<exists>c. daemon w' = daemon w @ [c] \<and> ci_id c = hid h \<and> ci_name c = hname h)"
    proof -
      obtain c where "daemon w1 = daemon w @ [c]" "ci_id c = hid h" "ci_name c = hname h"
        and "hname h = container_name n" "hid h = fresh_id (daemon w)"
        using eff(3) Inr name by auto
      then show ?thesis by (simp add: r w' emit_def)
    qed
    moreover have "spawn_calls [Api (ContainersRun (container_config L n vars)) None,
            Print (ContainerStarted (take 12 (hid h)))] = [(container_name n, None)]"
      using name by (simp add: spawn_calls_def)
    moreover have "spawn_errors [Api (ContainersRun (container_config L n vars)) None,
            Print (ContainerStarted (take 12 (hid h)))] = (case (None :: exn option) of None \<Rightarrow> [] | Some e \<Rightarrow> [e])"
      by (simp add: spawn_errors_def)
    ultimately show ?thesis by blast
  qed
qed

lemma feed_step_effect:
  assumes ok: "feed_ok fd" and dir: "\<not> mkdir_error w (feed_state_dir (host_pwd L) n)"
  shows "\<exists>r w' evs x. feed_step L n (YMap fd) w = (Inr r, w')
           \<and> trace w' = trace w @ evs \<and> spawn_calls evs = [(container_name n, x)]
           \<and> spawn_errors evs = (case x of None \<Rightarrow> [] | Some e \<Rightarrow> [e])
           \<and> static_eq w w'
           \<and> (case r of
                 None \<Rightarrow> x \<noteq> None \<and> daemon w' = daemon w
               | Some h \<Rightarrow> x = None \<and> hname h = container_name n \<and> hid h = fresh_id (daemon w)
                   \<and> (\<exists>c. daemon w' = daemon w @ [c] \<and> ci_id c = hid h \<and> ci_name c = hname h))"
proof -
  define w0 where "w0 = emit (Print (FeedHeader n)) w"
  define w1 where "w1 = emit (Mkdir (feed_state_dir (host_pwd L) n) None) w0"
  have mk: "mkdir (feed_state_dir (host_pwd L) n) w0 = (None, w1)"
    using dir by (simp add: mkdir_def w0_def w1_def emit_def)
  obtain vars where vars: "env_vars (unicode_lower w1) (environ w1) (graph_prefix L) n fd = Inr vars"
    using env_vars_ok [OF ok] by blast
  obtain r w2 where sp: "spawn L n vars w1 = (r, w2)" by (cases "spawn L n vars w1")
  have step: "feed_step L n (YMap fd) w = (Inr r, w2)"
    using mk vars sp by (simp add: feed_step_def w0_def [symmetric])
  have t1: "trace w1 = trace w @ [Print (FeedHeader n), Mkdir (feed_state_dir (host_pwd L) n) None]"
    and s1: "static_eq w w1" and d1: "daemon w1 = daemon w"
    by (simp_all add: w1_def w0_def emit_def static_eq_def)
  obtain evs x where e: "trace w2 = trace w1 @ evs" "spawn_calls evs = [(container_name n, x)]"
      "spawn_errors evs = (case x of None \<Rightarrow> [] | Some e \<Rightarrow> [e])" "static_eq w1 w2"
      "case r of
         None \<Rightarrow> x \<noteq> None \<and> daemon w2 = daemon w1
       | Some h \<Rightarrow> x = None \<and> hname h = container_name n \<and> hid h = fresh_id (daemon w1)
           \<and> (\<exists>c. daemon w2 = daemon w1 @ [c] \<and> ci_id c = hid h \<and> ci_name c = hname h)"
    using spawn_effect [OF sp] by blast
  let ?evs = "[Print (FeedHeader n), Mkdir (feed_state_dir (host_pwd L) n) None] @ evs"
  have "trace w2 = trace w @ ?evs" using e(1) t1 by simp
  moreover have "spawn_calls ?evs = [(container_name n, x)]"
    using e(2) by (simp add: spawn_calls_def)
  moreover have "spawn_errors ?evs = (case x of None \<Rightarrow> [] | Some e \<Rightarrow> [e])"
    using e(3) by (simp add: spawn_errors_def)
  moreover have "static_eq w w2" using s1 e(4) by (rule static_eq_trans)
  moreover have "case r of
         None \<Rightarrow> x \<noteq> None \<and> daemon w2 = daemon w
       | Some h \<Rightarrow> x = None \<and> hname h = container_name n \<and> hid h = fresh_id (daemon w)
           \<and> (\<exists>c. daemon w2 = daemon w @ [c] \<and> ci_id c = hid h \<and> ci_name c = hname h)"
    using e(5) by (simp only: d1)
  ultimately show ?thesis using step by blast
qed

lemma map_filter_snd_single:
  "List.map_filter snd [(n :: string, x :: exn option)] = (case x of None \<Rightarrow> [] | Some e \<Rightarrow> [e])"
  by (cases x) (simp_all add: List.map_filter_def)

lemma map_filter_append: "List.map_filter f (xs @ ys) = List.map_filter f xs @ List.map_filter f ys"
  by (simp add: List.map_filter_def)

lemma spawn_feeds_effect:
  assumes "list_all (\<lambda>item. (case snd item of YMap fd \<Rightarrow> feed_ok fd | _ \<Rightarrow> False)
                       \<and> \<not> mkdir_error w (feed_state_dir (host_pwd L) (fst item))) items"
  shows "\<exists>hs evs new w'.
           spawn_feeds L items acc w = (Inr (acc @ hs), w')
         \<and> trace w' = trace w @ evs \<and> static_eq w w'
         \<and> daemon w' = daemon w @ new
         \<and> map ci_name new = map hname hs \<and> map ci_id new = map hid hs
         \<and> distinct (map ci_id new) \<and> set (map ci_id new) \<inter> set (map ci_id (daemon w)) = {}
         \<and> map fst (spawn_calls evs) = map (\<lambda>item. container_name (fst item)) items
         \<and> map hname hs = map fst (filter (\<lambda>c. snd c = None) (spawn_calls evs))
         \<and> spawn_errors evs = List.map_filter snd (spawn_calls evs)"
  using assms
proof (induction items arbitrary: acc w)
  case Nil
  show ?case
    by (rule exI [of _ "[]"], rule exI [of _ "[]"], rule exI [of _ "[]"], rule exI [of _ w])
       (simp add: static_eq_refl spawn_calls_def spawn_errors_def List.map_filter_def)
next
  case (Cons item items)
  obtain n d where item: "item = (n, d)" by (cases item)
  obtain fd where d: "d = YMap fd" and ok: "feed_ok fd"
    and dir: "\<not> mkdir_error w (feed_state_dir (host_pwd L) n)"
    using Cons.prems item by (auto split: yaml.splits)
  obtain r w1 evs1 x where step: "feed_step L n (YMap fd) w = (Inr r, w1)"
    and t1: "trace w1 = trace w @ evs1" and c1: "spawn_calls evs1 = [(container_name n, x)]"
    and e1: "spawn_errors evs1 = (case x of None \<Rightarrow> [] | Some e \<Rightarrow> [e])"
    and s1: "static_eq w w1"
    and r1: "case r of
                 None \<Rightarrow> x \<noteq> None \<and> daemon w1 = daemon w
               | Some h \<Rightarrow> x = None \<and> hname h = container_name n \<and> hid h = fresh_id (daemon w)
                   \<and> (\<exists>c. daemon w1 = daemon w @ [c] \<and> ci_id c = hid h \<and> ci_name c = hname h)"
    using feed_step_effect [OF ok dir] by blast
  have rest: "list_all (\<lambda>item. (case snd item of YMap fd \<Rightarrow> feed_ok fd | _ \<Rightarrow> False)
                       \<and> \<not> mkdir_error w1 (feed_state_dir (host_pwd L) (fst item))) items"
    using Cons.prems s1 by (simp add: static_eq_def)
  show ?case
  proof (cases r)
    case None
    obtain hs evs new w' where ih:
      "spawn_feeds L items acc w1 = (Inr (acc @ hs), w')"
      "trace w' = trace w1 @ evs" "static_eq w1 w'" "daemon w' = daemon w1 @ new"
      "map ci_name new = map hname hs" "map ci_id new = map hid hs"
      "distinct (map ci_id new)" "set (map ci_id new) \<inter> set (map ci_id (daemon w1)) = {}"
      "map fst (spawn_calls evs) = map (\<lambda>item. container_name (fst item)) items"
      "map hname hs = map fst (filter (\<lambda>c. snd c = None) (spawn_calls evs))"
      "spawn_errors evs = List.map_filter snd (spawn_calls evs)"
      using Cons.IH [OF rest, of acc] by blast
    have x: "x \<noteq> None" and dm: "daemon w1 = daemon w" using r1 None by simp_all
    have "spawn_feeds L (item # items) acc w = (Inr (acc @ hs), w')"
      using step None ih(1) by (simp add: item d)
    moreover have "trace w' = trace w @ (evs1 @ evs)" using t1 ih(2) by simp
    moreover have "static_eq w w'" using s1 ih(3) by (rule static_eq_trans)
    moreover have "daemon w' = daemon w @ new" using ih(4) dm by simp
    moreover have "set (map ci_id new) \<inter> set (map ci_id (daemon w)) = {}" using ih(8) dm by simp
    moreover have "map fst (spawn_calls (evs1 @ evs)) = map (\<lambda>item. container_name (fst item)) (item # items)"
      using c1 ih(9) by (simp add: spawn_calls_append item)
    moreover have "map hname hs = map fst (filter (\<lambda>c. snd c = None) (spawn_calls (evs1 @ evs)))"
      using c1 ih(10) x by (simp add: spawn_calls_append)
    moreover have "spawn_errors (evs1 @ evs) = List.map_filter snd (spawn_calls (evs1 @ evs))"
      using c1 e1 ih(11)
      by (simp add: spawn_calls_append spawn_errors_append map_filter_append map_filter_snd_single
          split: option.splits)
    ultimately show ?thesis using ih(5,6,7) by blast
  next
    case (Some h)
    obtain hs evs new w' where ih:
      "spawn_feeds L items (acc @ [h]) w1 = (Inr ((acc @ [h]) @ hs), w')"
      "trace w' = trace w1 @ evs" "static_eq w1 w'" "daemon w' = daemon w1 @ new"
      "map ci_name new = map hname hs" "map ci_id new = map hid hs"
      "distinct (map ci_id new)" "set (map ci_id new) \<inter> set (map ci_id (daemon w1)) = {}"
      "map fst (spawn_calls evs) = map (\<lambda>item. container_name (fst item)) items"
      "map hname hs = map fst (filter (\<lambda>c. snd c = None) (spawn_calls evs))"
      "spawn_errors evs = List.map_filter snd (spawn_calls evs)"
      using Cons.IH [OF rest, of "acc @ [h]"] by blast
    obtain c where x: "x = None" and hn: "hname h = container_name n"
      and hi: "hid h = fresh_id (daemon w)" and dm: "daemon w1 = daemon w @ [c]"
      and ci: "ci_id c = hid h" and cn: "ci_name c = hname h"
      using r1 Some by auto
    have fresh: "ci_id c \<notin> set (map ci_id (daemon w))"
      using fresh_id_new [of "daemon w"] hi ci by simp
    have "spawn_feeds L (item # items) acc w = (Inr (acc @ (h # hs)), w')"
      using step Some ih(1) by (simp add: item d)
    moreover have "trace w' = trace w @ (evs1 @ evs)" using t1 ih(2) by simp
    moreover have "static_eq w w'" using s1 ih(3) by (rule static_eq_trans)
    moreover have "daemon w' = daemon w @ (c # new)" using ih(4) dm by simp
    moreover have "map ci_name (c # new) = map hname (h # hs)" using ih(5) cn by simp
    moreover have "map ci_id (c # new) = map hid (h # hs)" using ih(6) ci by simp
    moreover have "distinct (map ci_id (c # new))" using ih(7,8) dm by auto
    moreover have "set (map ci_id (c # new)) \<inter> set (map ci_id (daemon w)) = {}"
      using ih(8) dm fresh by auto
    moreover have "map fst (spawn_calls (evs1 @ evs)) = map (\<lambda>item. container_name (fst item)) (item # items)"
      using c1 ih(9) by (simp add: spawn_calls_append item)
    moreover have "map hname (h # hs) = map fst (filter (\<lambda>c. snd c = None) (spawn_calls (evs1 @ evs)))"
      using c1 ih(10) x hn by (simp add: spawn_calls_append)
    moreover have "spawn_errors (evs1 @ evs) = List.map_filter snd (spawn_calls (evs1 @ evs))"
      using c1 e1 ih(11)
      by (simp add: spawn_calls_append spawn_errors_append map_filter_append map_filter_snd_single
          split: option.splits)
    ultimately show ?thesis by blast
  qed
qed

lemma compose_labels_body_effect:
  assumes "compose_labels_body w = (r, w')"
  shows "\<exists>evs. trace w' = trace w @ evs \<and> spawn_calls evs = [] \<and> spawn_errors evs = []
           \<and> static_eq w w' \<and> daemon w' = daemon w"
proof (cases "environ w ''HOSTNAME''")
  case None
  then have "w' = w" using assms by (simp add: compose_labels_body_def)
  then show ?thesis by (simp add: static_eq_refl spawn_calls_def spawn_errors_def)
next
  case (Some h)
  show ?thesis
  proof (cases "h = []")
    case True
    then have "w' = w" using assms Some by (simp add: compose_labels_body_def)
    then show ?thesis by (simp add: static_eq_refl spawn_calls_def spawn_errors_def)
  next
    case False
    obtain r0 w1 where g: "containers_get h w = (r0, w1)" by (cases "containers_get h w")
    have "w' = w1"
      using assms Some False g
      by (auto simp: compose_labels_body_def split: sum.splits option.splits)
    then show ?thesis
      using containers_get_effect [OF g] by (simp add: spawn_calls_def spawn_errors_def)
  qed
qed

lemma parent_network_body_effect:
  assumes "parent_network_body w = (r, w')"
  shows "\<exists>evs. trace w' = trace w @ evs \<and> spawn_calls evs = [] \<and> spawn_errors evs = []
           \<and> static_eq w w' \<and> daemon w' = daemon w"
proof (cases "environ w ''HOSTNAME''")
  case None
  then have "w' = w" using assms by (simp add: parent_network_body_def)
  then show ?thesis by (simp add: static_eq_refl spawn_calls_def spawn_errors_def)
next
  case (Some h)
  show ?thesis
  proof (cases "h = []")
    case True
    then have "w' = w" using assms Some by (simp add: parent_network_body_def)
    then show ?thesis by (simp add: static_eq_refl spawn_calls_def spawn_errors_def)
  next
    case False
    obtain r0 w1 where g: "containers_get h w = (r0, w1)" by (cases "containers_get h w")
    have "w' = w1"
      using assms Some False g
      by (auto simp: parent_network_body_def split: sum.splits list.splits)
    then show ?thesis
      using containers_get_effect [OF g] by (simp add: spawn_calls_def spawn_errors_def)
  qed
qed

lemma emit_print_quiet:
  assumes "\<exists>evs. trace w1 = trace w @ evs \<and> spawn_calls evs = [] \<and> spawn_errors evs = []
           \<and> static_eq w w1 \<and> daemon w1 = daemon w"
    and "\<And>e. l \<noteq> SpawnError e"
  shows "\<exists>evs. trace (emit (Print l) w1) = trace w @ evs \<and> spawn_calls evs = [] \<and> spawn_errors evs = []
           \<and> static_eq w (emit (Print l) w1) \<and> daemon (emit (Print l) w1) = daemon w"
proof -
  obtain evs where e: "trace w1 = trace w @ evs" "spawn_calls evs = []" "spawn_errors evs = []"
      "static_eq w w1" "daemon w1 = daemon w"
    using assms(1) by blast
  have "spawn_error (Print l) = []" using assms(2) by (cases l) auto
  then have "spawn_errors (evs @ [Print l]) = []" "spawn_calls (evs @ [Print l]) = []"
    using e(2,3) by (simp_all add: spawn_errors_def spawn_calls_def)
  moreover have "trace (emit (Print l) w1) = trace w @ (evs @ [Print l])"
    using e(1) by (simp add: emit_def)
  moreover have "static_eq w (emit (Print l) w1)" using e(4) by (simp add: emit_def static_eq_def)
  moreover have "daemon (emit (Print l) w1) = daemon w" using e(5) by (simp add: emit_def)
  ultimately show ?thesis by blast
qed

lemma get_compose_labels_effect:
  assumes "get_compose_labels w = (l, w')"
  shows "\<exists>evs. trace w' = trace w @ evs \<and> spawn_calls evs = [] \<and> spawn_errors evs = []
           \<and> static_eq w w' \<and> daemon w' = daemon w"
proof -
  obtain r w1 where b: "compose_labels_body w = (r, w1)" by (cases "compose_labels_body w")
  note q = compose_labels_body_effect [OF b]
  show ?thesis
  proof (cases r)
    case (Inl e)
    then have "w' = emit (Print (ComposeUndetected e)) w1"
      using assms b by (simp add: get_compose_labels_def)
    then show ?thesis using emit_print_quiet [OF q, of "ComposeUndetected e"] by simp
  next
    case (Inr x)
    then have "w' = w1" using assms b by (simp add: get_compose_labels_def)
    then show ?thesis using q by simp
  qed
qed

lemma get_parent_network_effect:
  assumes "get_parent_network w = (l, w')"
  shows "\<exists>evs. trace w' = trace w @ evs \<and> spawn_calls evs = [] \<and> spawn_errors evs = []
           \<and> static_eq w w' \<and> daemon w' = daemon w"
proof -
  obtain r w1 where b: "parent_network_body w = (r, w1)" by (cases "parent_network_body w")
  note q = parent_network_body_effect [OF b]
  show ?thesis
  proof (cases r)
    case (Inl e)
    then have "w' = emit (Print (NetworkUndetected e)) w1"
      using assms b by (simp add: get_parent_network_def)
    then show ?thesis using emit_print_quiet [OF q, of "NetworkUndetected e"] by simp
  next
    case (Inr x)
    then have "w' = w1" using assms b by (simp add: get_parent_network_def)
    then show ?thesis using q by simp
  qed
qed

lemma detect_locals_effect:
  assumes "detect_locals image_ref w = (L, w')"
  shows "\<exists>evs. trace w' = trace w @ evs \<and> spawn_calls evs = [] \<and> spawn_errors evs = []
           \<and> static_eq w w' \<and> daemon w' = daemon w"
    and "host_pwd L = getenv (environ w) ''HOST_PWD'' (cwd w)"
proof -
  obtain l w1 where a: "get_compose_labels w = (l, w1)" by (cases "get_compose_labels w")
  obtain n w2 where b: "get_parent_network w1 = (n, w2)" by (cases "get_parent_network w1")
  have w': "w' = w2" and L: "host_pwd L = getenv (environ w) ''HOST_PWD'' (cwd w)"
    using assms a b by (auto simp: detect_locals_def)
  obtain evs1 where e1: "trace w1 = trace w @ evs1" "spawn_calls evs1 = []" "spawn_errors evs1 = []"
      "static_eq w w1" "daemon w1 = daemon w"
    using get_compose_labels_effect [OF a] by blast
  obtain evs2 where e2: "trace w2 = trace w1 @ evs2" "spawn_calls evs2 = []" "spawn_errors evs2 = []"
      "static_eq w1 w2" "daemon w2 = daemon w1"
    using get_parent_network_effect [OF b] by blast
  have "trace w2 = trace w @ (evs1 @ evs2)" using e1(1) e2(1) by simp
  moreover have "spawn_calls (evs1 @ evs2) = []" using e1(2) e2(2) by (simp add: spawn_calls_append)
  moreover have "spawn_errors (evs1 @ evs2) = []" using e1(3) e2(3) by (simp add: spawn_errors_append)
  moreover have "static_eq w w2" using e1(4) e2(4) by (rule static_eq_trans)
  moreover have "daemon w2 = daemon w" using e1(5) e2(5) by simp
  ultimately show "\<exists>evs. trace w' = trace w @ evs \<and> spawn_calls evs = [] \<and> spawn_errors evs = []
           \<and> static_eq w w' \<and> daemon w' = daemon w"
    unfolding w' by blast
  show "host_pwd L = getenv (environ w) ''HOST_PWD'' (cwd w)" by (rule L)
qed

lemma process_feeds_effect:
  assumes idx: "py_index feeds_config ''feeds'' = Inr (YMap items)" and ok: "feeds_ok w items"
  shows "\<exists>hs evs new w'.
           process_feeds feeds_config image_ref w = (Inr hs, w')
         \<and> trace w' = trace w @ evs
         \<and> daemon w' = daemon w @ new
         \<and> map ci_name new = map hname hs \<and> map ci_id new = map hid hs
         \<and> distinct (map ci_id new) \<and> set (map ci_id new) \<inter> set (map ci_id (daemon w)) = {}
         \<and> map fst (spawn_calls evs) = map (\<lambda>item. container_name (fst item)) items
         \<and> map hname hs = map fst (filter (\<lambda>c. snd c = None) (spawn_calls evs))
         \<and> spawn_errors evs = List.map_filter snd (spawn_calls evs)"
proof -
  obtain c where cfg: "feeds_config = YMap c" and feeds: "map_of c (KStr ''feeds'') = Some (YMap items)"
    using idx by (cases feeds_config) (auto split: option.splits)
  have "KStr ''feeds'' \<in> set (map fst c)"
    using feeds by (metis map_of_eq_None_iff option.distinct(1) set_map)
  then have present: "py_contains feeds_config ''feeds'' = Inr True" by (simp add: cfg)
  obtain L w0 where d: "detect_locals image_ref w = (L, w0)" by (cases "detect_locals image_ref w")
  define w1 where "w1 = emit (Print (DefaultEndpoint (default_sparql_endpoint (environ w0)))) w0"
  have e0: "\<exists>evs. trace w1 = trace w @ evs \<and> spawn_calls evs = [] \<and> spawn_errors evs = []
           \<and> static_eq w w1 \<and> daemon w1 = daemon w"
    unfolding w1_def by (rule emit_print_quiet [OF detect_locals_effect(1) [OF d]]) simp
  obtain evs0 where e0: "trace w1 = trace w @ evs0" "spawn_calls evs0 = []" "spawn_errors evs0 = []"
      "static_eq w w1" "daemon w1 = daemon w"
    using e0 by blast
  have hp: "host_pwd L = getenv (environ w) ''HOST_PWD'' (cwd w)" by (rule detect_locals_effect(2) [OF d])
  have pf: "process_feeds feeds_config image_ref w = spawn_feeds L items [] w1"
    using present idx d by (simp add: process_feeds_def w1_def)
  have "list_all (\<lambda>item. (case snd item of YMap fd \<Rightarrow> feed_ok fd | _ \<Rightarrow> False)
                       \<and> \<not> mkdir_error w1 (feed_state_dir (host_pwd L) (fst item))) items"
    using ok e0(4) by (simp add: feeds_ok_def hp static_eq_def)
  then obtain hs evs new w' where l:
      "spawn_feeds L items [] w1 = (Inr ([] @ hs), w')"
      "trace w' = trace w1 @ evs" "static_eq w1 w'" "daemon w' = daemon w1 @ new"
      "map ci_name new = map hname hs" "map ci_id new = map hid hs"
      "distinct (map ci_id new)" "set (map ci_id new) \<inter> set (map ci_id (daemon w1)) = {}"
      "map fst (spawn_calls evs) = map (\<lambda>item. container_name (fst item)) items"
      "map hname hs = map fst (filter (\<lambda>c. snd c = None) (spawn_calls evs))"
      "spawn_errors evs = List.map_filter snd (spawn_calls evs)"
    using spawn_feeds_effect [of w1 L items "[]"] by blast
  have "process_feeds feeds_config image_ref w = (Inr hs, w')" using pf l(1) by simp
  moreover have "trace w' = trace w @ (evs0 @ evs)" using e0(1) l(2) by simp
  moreover have "daemon w' = daemon w @ new" using e0(5) l(4) by simp
  moreover have "set (map ci_id new) \<inter> set (map ci_id (daemon w)) = {}" using e0(5) l(8) by simp
  moreover have "spawn_calls (evs0 @ evs) = spawn_calls evs" using e0(2) by (simp add: spawn_calls_append)
  moreover have "spawn_errors (evs0 @ evs) = spawn_errors evs" using e0(3) by (simp add: spawn_errors_append)
  ultimately show ?thesis using l(5,6,7,9,10,11) by (metis (no_types, lifting))
qed

lemma single_failure_filter:
  fixes cs :: "(string \<times> exn option) list"
  assumes i: "i < length cs" and f: "snd (cs ! i) = Some e"
    and others: "\<And>j. j < length cs \<Longrightarrow> j \<noteq> i \<Longrightarrow> snd (cs ! j) = None"
  shows "filter (\<lambda>c. snd c = None) cs = take i cs @ drop (Suc i) cs"
    and "List.map_filter snd cs = [e]"
proof -
  have split: "cs = take i cs @ cs ! i # drop (Suc i) cs"
    using i by (rule id_take_nth_drop)
  have before: "snd c = None" if mem: "c \<in> set (take i cs)" for c
  proof -
    obtain j where j: "j < length (take i cs)" "take i cs ! j = c"
      using mem unfolding in_set_conv_nth by blast
    have ji: "j < i" "j < length cs" using j(1) by simp_all
    have "cs ! j = c" using j(2) ji(1) by simp
    moreover have "snd (cs ! j) = None" using others [of j] ji by simp
    ultimately show ?thesis by simp
  qed
  have after: "snd c = None" if mem: "c \<in> set (drop (Suc i) cs)" for c
  proof -
    obtain j where j: "j < length (drop (Suc i) cs)" "drop (Suc i) cs ! j = c"
      using mem unfolding in_set_conv_nth by blast
    have b: "Suc i + j < length cs" using j(1) by simp
    have "cs ! (Suc i + j) = c" using j(2) b by simp
    moreover have "snd (cs ! (Suc i + j)) = None" using others [of "Suc i + j"] b by simp
    ultimately show ?thesis by simp
  qed
  have fb: "filter (\<lambda>c. snd c = None) (take i cs) = take i cs"
    using before by (simp add: filter_id_conv)
  have fa: "filter (\<lambda>c. snd c = None) (drop (Suc i) cs) = drop (Suc i) cs"
    using after by (simp add: filter_id_conv)
  have "filter (\<lambda>c. snd c = None) (take i cs @ cs ! i # drop (Suc i) cs) = take i cs @ drop (Suc i) cs"
    by (simp add: f fb fa)
  then show "filter (\<lambda>c. snd c = None) cs = take i cs @ drop (Suc i) cs"
    using split by simp
  have nb: "filter (\<lambda>c. \<exists>y. snd c = Some y) (take i cs) = []"
    using before by (auto simp: filter_empty_conv)
  have na: "filter (\<lambda>c. \<exists>y. snd c = Some y) (drop (Suc i) cs) = []"
    using after by (auto simp: filter_empty_conv)
  have "List.map_filter snd (take i cs @ cs ! i # drop (Suc i) cs) = [e]"
    by (simp add: List.map_filter_def f nb na)
  then show "List.map_filter snd cs = [e]"
    using split by simp
qed

text \<open>
  Claim C5, as stated, speaks of every configuration in which the spawn call of exactly
  one feed fails. The \<^verbatim>\<open>try\<close> of the loop covers the spawn call only: the environment
  of a feed is built before it, and an exception there leaves \<^verbatim>\<open>process_feeds\<close>. With
  the three feeds \<^verbatim>\<open>a\<close>, \<^verbatim>\<open>b\<close> (whose override is \<^verbatim>\<open>LOG_LEVEL: 10\<close>) and \<^verbatim>\<open>c\<close>, and the
  spawn call of \<^verbatim>\<open>a\<close> failing, that call is the only spawn call of the run, its failure
  is printed, \<^verbatim>\<open>process_feeds\<close> raises \<open>AttributeError\<close> at \<^verbatim>\<open>b\<close> and returns no list,
  and neither \<^verbatim>\<open>b\<close> nor \<^verbatim>\<open>c\<close> gets a container.
\<close>

theorem malformed_feed_aborts_batch:
  "fst (process_feeds three_feeds ''img'' (bare_world\<lparr>faults := [True]\<rparr>)) = Inl AttributeError
   \<and> spawn_calls (trace (snd (process_feeds three_feeds ''img'' (bare_world\<lparr>faults := [True]\<rparr>))))
       = [(''ldes-consumer-a'', Some APIError)]
   \<and> spawn_errors (trace (snd (process_feeds three_feeds ''img'' (bare_world\<lparr>faults := [True]\<rparr>))))
       = [APIError]
   \<and> map ci_name (daemon (snd (process_feeds three_feeds ''img'' (bare_world\<lparr>faults := [True]\<rparr>))))
       = []"
proof -
  have "fst (process_feeds three_feeds ''img'' (bare_world\<lparr>faults := [True]\<rparr>)) = Inl AttributeError"
    by code_simp
  moreover have "spawn_calls (trace (snd (process_feeds three_feeds ''img'' (bare_world\<lparr>faults := [True]\<rparr>))))
       = [(''ldes-consumer-a'', Some APIError)]"
    by code_simp
  moreover have "spawn_errors (trace (snd (process_feeds three_feeds ''img'' (bare_world\<lparr>faults := [True]\<rparr>))))
       = [APIError]"
    by code_simp
  moreover have "map ci_name (daemon (snd (process_feeds three_feeds ''img'' (bare_world\<lparr>faults := [True]\<rparr>))))
       = []"
    by code_simp
  ultimately show ?thesis by simp
qed

text \<open>
  Claim C5, amended. Take a configuration whose feeds are well formed: every feed is a
  dictionary whose \<^verbatim>\<open>environment\<close> is absent or a dictionary and whose \<^verbatim>\<open>LOG_LEVEL\<close>
  override is absent or a string, and its state directory can be created (so that
  nothing outside the \<^verbatim>\<open>try\<close> of the loop raises). Then \<^verbatim>\<open>process_feeds\<close> returns
  normally whatever the spawn calls do; it makes exactly one spawn call per feed, in
  the order of the configuration; the handles it returns are those of the calls that
  succeeded, in order; and every call that failed is printed. In particular, when the
  call of exactly one feed fails, the returned list holds the other N - 1 feeds'
  containers and not the failing one, and exactly that failure is printed.
\<close>

theorem spawn_failure_is_isolated:
  assumes "py_index feeds_config ''feeds'' = Inr (YMap items)" and "feeds_ok w items"
  shows "\<exists>hs evs w'.
           process_feeds feeds_config image_ref w = (Inr hs, w')
         \<and> trace w' = trace w @ evs
         \<and> map fst (spawn_calls evs) = map (\<lambda>item. container_name (fst item)) items
         \<and> map hname hs = map fst (filter (\<lambda>c. snd c = None) (spawn_calls evs))
         \<and> spawn_errors evs = List.map_filter snd (spawn_calls evs)
         \<and> (\<forall>i e. i < length items \<and> snd (spawn_calls evs ! i) = Some e
                  \<and> (\<forall>j<length items. j \<noteq> i \<longrightarrow> snd (spawn_calls evs ! j) = None) \<longrightarrow>
                length hs = length items - 1
              \<and> map hname hs =
                  map (\<lambda>item. container_name (fst item)) (take i items @ drop (Suc i) items)
              \<and> spawn_errors evs = [e])"
proof -
  obtain hs evs w' where p:
      "process_feeds feeds_config image_ref w = (Inr hs, w')"
      "trace w' = trace w @ evs"
      "map fst (spawn_calls evs) = map (\<lambda>item. container_name (fst item)) items"
      "map hname hs = map fst (filter (\<lambda>c. snd c = None) (spawn_calls evs))"
      "spawn_errors evs = List.map_filter snd (spawn_calls evs)"
    using process_feeds_effect [OF assms, of image_ref] by blast
  have len: "length (spawn_calls evs) = length items"
    using p(3) by (metis length_map)
  have one: "length hs = length items - 1
              \<and> map hname hs =
                  map (\<lambda>item. container_name (fst item)) (take i items @ drop (Suc i) items)
              \<and> spawn_errors evs = [e]"
    if i: "i < length items" and f: "snd (spawn_calls evs ! i) = Some e"
      and o: "\<forall>j<length items. j \<noteq> i \<longrightarrow> snd (spawn_calls evs ! j) = None" for i e
  proof -
    have i': "i < length (spawn_calls evs)" using i len by simp
    have o': "snd (spawn_calls evs ! j) = None" if "j < length (spawn_calls evs)" "j \<noteq> i" for j
      using o len that by simp
    note sf = single_failure_filter [OF i' f o']
    have "map hname hs = take i (map fst (spawn_calls evs)) @ drop (Suc i) (map fst (spawn_calls evs))"
      using p(4) sf(1) by (simp add: take_map drop_map)
    then have names: "map hname hs =
        map (\<lambda>item. container_name (fst item)) (take i items @ drop (Suc i) items)"
      using p(3) by (simp add: take_map drop_map)
    have "length (map hname hs) = length items - 1"
      unfolding names using i by simp
    then have "length hs = length items - 1" by simp
    then show ?thesis using names p(5) sf(2) by simp
  qed
  show ?thesis using p one by blast
qed

theorem spawn_failure_is_isolated_witness:
  "py_index (YMap [(KStr ''feeds'', YMap two_feeds)]) ''feeds'' = Inr (YMap two_feeds)
   \<and> feeds_ok (bare_world\<lparr>faults := [True]\<rparr>) two_feeds
   \<and> spawn_calls (trace (snd (process_feeds (YMap [(KStr ''feeds'', YMap two_feeds)]) ''img''
                  (bare_world\<lparr>faults := [True]\<rparr>))))
       = [(''ldes-consumer-a'', Some APIError), (''ldes-consumer-b'', None)]
   \<and> (\<exists>hs. fst (process_feeds (YMap [(KStr ''feeds'', YMap two_feeds)]) ''img''
                  (bare_world\<lparr>faults := [True]\<rparr>)) = Inr hs
           \<and> length hs = 1 \<and> map hname hs = [''ldes-consumer-b''])
   \<and> spawn_errors (trace (snd (process_feeds (YMap [(KStr ''feeds'', YMap two_feeds)]) ''img''
                  (bare_world\<lparr>faults := [True]\<rparr>)))) = [APIError]"
proof -
  let ?w = "bare_world\<lparr>faults := [True]\<rparr>"
  let ?cfg = "YMap [(KStr ''feeds'', YMap two_feeds)]"
  have idx: "py_index ?cfg ''feeds'' = Inr (YMap two_feeds)" by simp
  have ok: "feeds_ok ?w two_feeds" by code_simp
  have calls: "spawn_calls (trace (snd (process_feeds ?cfg ''img'' ?w)))
       = [(''ldes-consumer-a'', Some APIError), (''ldes-consumer-b'', None)]"
    by code_simp
  have t0: "trace ?w = []" by (simp add: bare_world_def)
  have len: "length two_feeds = 2" by (simp add: two_feeds_def)
  obtain hs evs w' where p: "process_feeds ?cfg ''img'' ?w = (Inr hs, w')"
      "trace w' = trace ?w @ evs"
      "\<forall>i e. i < length two_feeds \<and> snd (spawn_calls evs ! i) = Some e
                  \<and> (\<forall>j<length two_feeds. j \<noteq> i \<longrightarrow> snd (spawn_calls evs ! j) = None) \<longrightarrow>
                length hs = length two_feeds - 1
              \<and> map hname hs =
                  map (\<lambda>item. container_name (fst item)) (take i two_feeds @ drop (Suc i) two_feeds)
              \<and> spawn_errors evs = [e]"
    using spawn_failure_is_isolated [OF idx ok, of "''img''"] by blast
  have evs: "trace (snd (process_feeds ?cfg ''img'' ?w)) = evs"
    using p(1,2) t0 by simp
  have c: "spawn_calls evs = [(''ldes-consumer-a'', Some APIError), (''ldes-consumer-b'', None)]"
    using calls evs by simp
  have "0 < length two_feeds \<and> snd (spawn_calls evs ! 0) = Some APIError
        \<and> (\<forall>j<length two_feeds. j \<noteq> 0 \<longrightarrow> snd (spawn_calls evs ! j) = None)"
    by (auto simp: c len less_Suc_eq numeral_2_eq_2)
  then have "length hs = length two_feeds - 1
       \<and> map hname hs = map (\<lambda>item. container_name (fst item)) (take 0 two_feeds @ drop (Suc 0) two_feeds)
       \<and> spawn_errors evs = [APIError]"
    using p(3) by blast
  then have "length hs = 1 \<and> map hname hs = [''ldes-consumer-b''] \<and> spawn_errors evs = [APIError]"
    by (simp add: two_feeds_def container_name_def)
  then show ?thesis using idx ok calls p(1) evs by simp
qed

text \<open>
  Claim C6, as stated, speaks of every configuration with N feeds whose spawn calls all
  succeed, and of all distinct feed names. With the three feeds \<^verbatim>\<open>a\<close>, \<^verbatim>\<open>b\<close>
  (whose override is \<^verbatim>\<open>LOG_LEVEL: 10\<close>) and \<^verbatim>\<open>c\<close> and a daemon that refuses nothing,
  the one spawn call of the run succeeds and one container results, not three:
  \<^verbatim>\<open>process_feeds\<close> raises \<open>AttributeError\<close> at \<^verbatim>\<open>b\<close>. And the feed names \<^verbatim>\<open>1\<close> (an
  integer) and \<^verbatim>\<open>'1'\<close> (a string) are distinct keys of the \<^verbatim>\<open>feeds\<close> dictionary that
  get the same container name \<^verbatim>\<open>ldes-consumer-1\<close>: the daemon refuses the second.
\<close>

theorem malformed_feed_fewer_containers:
  "spawn_calls (trace (snd (process_feeds three_feeds ''img'' bare_world)))
       = [(''ldes-consumer-a'', None)]
   \<and> fst (process_feeds three_feeds ''img'' bare_world) = Inl AttributeError
   \<and> map ci_name (daemon (snd (process_feeds three_feeds ''img'' bare_world))) = [''ldes-consumer-a'']
   \<and> KInt 1 \<noteq> KStr ''1''
   \<and> container_name (KInt 1) = ''ldes-consumer-1''
   \<and> container_name (KStr ''1'') = ''ldes-consumer-1''
   \<and> spawn_calls (trace (snd (process_feeds twin_feeds ''img'' bare_world)))
       = [(''ldes-consumer-1'', None), (''ldes-consumer-1'', Some APIError)]
   \<and> map ci_name (daemon (snd (process_feeds twin_feeds ''img'' bare_world))) = [''ldes-consumer-1'']"
proof -
  have "spawn_calls (trace (snd (process_feeds three_feeds ''img'' bare_world)))
       = [(''ldes-consumer-a'', None)]"
    by code_simp
  moreover have "fst (process_feeds three_feeds ''img'' bare_world) = Inl AttributeError"
    by code_simp
  moreover have "map ci_name (daemon (snd (process_feeds three_feeds ''img'' bare_world)))
       = [''ldes-consumer-a'']"
    by code_simp
  moreover have "container_name (KInt 1) = ''ldes-consumer-1''"
    by code_simp
  moreover have "container_name (KStr ''1'') = ''ldes-consumer-1''"
    by (simp add: container_name_def)
  moreover have "spawn_calls (trace (snd (process_feeds twin_feeds ''img'' bare_world)))
       = [(''ldes-consumer-1'', None), (''ldes-consumer-1'', Some APIError)]"
    by code_simp
  moreover have "map ci_name (daemon (snd (process_feeds twin_feeds ''img'' bare_world)))
       = [''ldes-consumer-1'']"
    by code_simp
  ultimately show ?thesis by simp
qed

text \<open>
  Claim C6, amended. The container name is \<^verbatim>\<open>ldes-consumer-\<close> followed by the feed name
  as \<^verbatim>\<open>str\<close> formats it, a function of the feed name alone, and injective on the feed
  names that are strings. For a configuration of N well-formed feeds (as in claim C5),
  \<^verbatim>\<open>process_feeds\<close> makes one spawn call per feed under that name; the daemon gains one
  container per returned handle, with the handle's name and identifier, and no two
  returned handles have the same identifier. If every spawn call succeeds, N handles
  are returned and N containers are created, named after the N feeds in order, and the
  names are distinct when the formatted feed names are, so in particular when the
  feed names are distinct strings.
\<close>

theorem all_feeds_spawned:
  assumes "py_index feeds_config ''feeds'' = Inr (YMap items)" and "feeds_ok w items"
  shows "inj (\<lambda>s. container_name (KStr s))
       \<and> (\<exists>hs evs new w'.
           process_feeds feeds_config image_ref w = (Inr hs, w')
         \<and> trace w' = trace w @ evs
         \<and> daemon w' = daemon w @ new
         \<and> map ci_name new = map hname hs \<and> map ci_id new = map hid hs
         \<and> distinct (map hid hs)
         \<and> map fst (spawn_calls evs) = map (\<lambda>item. container_name (fst item)) items
         \<and> (list_all (\<lambda>c. snd c = None) (spawn_calls evs) \<longrightarrow>
                length hs = length items \<and> length new = length items
              \<and> map hname hs = map (\<lambda>item. container_name (fst item)) items
              \<and> (distinct (map (\<lambda>item. key_str (fst item)) items) \<longrightarrow> distinct (map hname hs))
              \<and> (list_all (\<lambda>item. is_str_key (fst item)) items \<and> distinct (map fst items) \<longrightarrow>
                    distinct (map hname hs))))"
proof -
  have inj: "inj (\<lambda>s. container_name (KStr s))"
    by (rule injI) (simp add: container_name_def)
  obtain hs evs new w' where p:
      "process_feeds feeds_config image_ref w = (Inr hs, w')"
      "trace w' = trace w @ evs"
      "daemon w' = daemon w @ new"
      "map ci_name new = map hname hs" "map ci_id new = map hid hs"
      "distinct (map ci_id new)"
      "map fst (spawn_calls evs) = map (\<lambda>item. container_name (fst item)) items"
      "map hname hs = map fst (filter (\<lambda>c. snd c = None) (spawn_calls evs))"
    using process_feeds_effect [OF assms, of image_ref] by blast
  have ids: "distinct (map hid hs)" using p(5,6) by simp
  have all: "length hs = length items \<and> length new = length items
              \<and> map hname hs = map (\<lambda>item. container_name (fst item)) items
              \<and> (distinct (map (\<lambda>item. key_str (fst item)) items) \<longrightarrow> distinct (map hname hs))
              \<and> (list_all (\<lambda>item. is_str_key (fst item)) items \<and> distinct (map fst items) \<longrightarrow>
                    distinct (map hname hs))"
    if a: "list_all (\<lambda>c. snd c = None) (spawn_calls evs)"
  proof -
    have "filter (\<lambda>c. snd c = None) (spawn_calls evs) = spawn_calls evs"
      using a by (simp add: filter_id_conv list_all_iff)
    then have names: "map hname hs = map (\<lambda>item. container_name (fst item)) items"
      using p(7,8) by simp
    have l1: "length hs = length items" using names by (metis length_map)
    have l2: "length new = length items" using p(4) l1 by (metis length_map)
    have d1: "distinct (map hname hs)" if "distinct (map (\<lambda>item. key_str (fst item)) items)"
    proof -
      have "map hname hs = map (\<lambda>s. ''ldes-consumer-'' @ s) (map (\<lambda>item. key_str (fst item)) items)"
        using names by (simp add: container_name_def)
      then show ?thesis using that by (simp add: distinct_map inj_on_def)
    qed
    have d2: "distinct (map hname hs)"
      if s: "list_all (\<lambda>item. is_str_key (fst item)) items" and d: "distinct (map fst items)"
    proof -
      have "inj_on key_str (set (map fst items))"
      proof (rule inj_onI)
        fix x y assume x: "x \<in> set (map fst items)" and y: "y \<in> set (map fst items)"
          and e: "key_str x = key_str y"
        have "is_str_key x" "is_str_key y" using s x y by (auto simp: list_all_iff)
        then show "x = y" using e by (cases x; cases y) simp_all
      qed
      then have "distinct (map key_str (map fst items))"
        unfolding distinct_map [of key_str "map fst items"] using d by blast
      then have "distinct (map (\<lambda>item. key_str (fst item)) items)"
        by (simp only: map_map comp_def)
      then show ?thesis by (rule d1)
    qed
    show ?thesis using names l1 l2 d1 d2 by blast
  qed
  show ?thesis using inj p(1,2,3,4,5,7) ids all by blast
qed

theorem all_feeds_spawned_witness:
  "py_index (YMap [(KStr ''feeds'', YMap two_feeds)]) ''feeds'' = Inr (YMap two_feeds)
   \<and> feeds_ok bare_world two_feeds
   \<and> list_all (\<lambda>c. snd c = None)
       (spawn_calls (trace (snd (process_feeds (YMap [(KStr ''feeds'', YMap two_feeds)]) ''img'' bare_world))))
   \<and> distinct (map (\<lambda>item. key_str (fst item)) two_feeds)
   \<and> list_all (\<lambda>item. is_str_key (fst item)) two_feeds
   \<and> distinct (map fst two_feeds)
   \<and> (\<exists>hs. fst (process_feeds (YMap [(KStr ''feeds'', YMap two_feeds)]) ''img'' bare_world) = Inr hs
           \<and> length hs = 2 \<and> map hname hs = [''ldes-consumer-a'', ''ldes-consumer-b'']
           \<and> distinct (map hname hs) \<and> distinct (map hid hs))
   \<and> length (daemon (snd (process_feeds (YMap [(KStr ''feeds'', YMap two_feeds)]) ''img'' bare_world))) = 2"
proof -
  let ?w = "bare_world"
  let ?cfg = "YMap [(KStr ''feeds'', YMap two_feeds)]"
  have idx: "py_index ?cfg ''feeds'' = Inr (YMap two_feeds)" by simp
  have ok: "feeds_ok ?w two_feeds" by code_simp
  have calls: "list_all (\<lambda>c. snd c = None) (spawn_calls (trace (snd (process_feeds ?cfg ''img'' ?w))))"
    by code_simp
  have t0: "trace ?w = []" "daemon ?w = []" by (simp_all add: bare_world_def)
  have d: "distinct (map (\<lambda>item. key_str (fst item)) two_feeds)"
    and sk: "list_all (\<lambda>item. is_str_key (fst item)) two_feeds"
    and df: "distinct (map fst two_feeds)"
    by (simp_all add: two_feeds_def)
  have len: "length two_feeds = 2" by (simp add: two_feeds_def)
  obtain hs evs new w' where p: "process_feeds ?cfg ''img'' ?w = (Inr hs, w')"
      "trace w' = trace ?w @ evs" "daemon w' = daemon ?w @ new" "distinct (map hid hs)"
      "list_all (\<lambda>c. snd c = None) (spawn_calls evs) \<longrightarrow>
                length hs = length two_feeds \<and> length new = length two_feeds
              \<and> map hname hs = map (\<lambda>item. container_name (fst item)) two_feeds
              \<and> (distinct (map (\<lambda>item. key_str (fst item)) two_feeds) \<longrightarrow> distinct (map hname hs))
              \<and> (list_all (\<lambda>item. is_str_key (fst item)) two_feeds \<and> distinct (map fst two_feeds) \<longrightarrow>
                    distinct (map hname hs))"
    using all_feeds_spawned [OF idx ok, of "''img''"] by blast
  have evs: "trace (snd (process_feeds ?cfg ''img'' ?w)) = evs"
    and dm: "daemon (snd (process_feeds ?cfg ''img'' ?w)) = new"
    using p(1,2,3) t0 by simp_all
  have "list_all (\<lambda>c. snd c = None) (spawn_calls evs)" using calls evs by simp
  then have "length hs = length two_feeds \<and> length new = length two_feeds
              \<and> map hname hs = map (\<lambda>item. container_name (fst item)) two_feeds
              \<and> distinct (map hname hs)"
    using p(5) d by blast
  then have "length hs = 2 \<and> length new = 2 \<and> map hname hs = [''ldes-consumer-a'', ''ldes-consumer-b'']
      \<and> distinct (map hname hs)"
    by (simp add: two_feeds_def container_name_def)
  then show ?thesis using idx ok calls d sk df p(1,4) dm by simp
qed

section \<open>Properties of the clean-up\<close>

lemma stop_effect:
  assumes "stop h t w = (r, w')"
  shows "trace w' = trace w @ [Api (Stop (hid h) t) (raised r)]"
  using assms
  by (auto simp: stop_def api_def next_fault_def emit_def split: list.splits if_splits)

lemma remove_effect:
  assumes "remove h w = (r, w')"
  shows "trace w' = trace w @ [Api (Remove (hid h)) (raised r)]"
  using assms
  by (auto simp: remove_def api_def next_fault_def emit_def split: list.splits if_splits option.splits)

lemma cleanup_one_trace:
  "\<exists>evs x. trace (cleanup_one h w) = trace w @ evs
        \<and> stop_calls evs = [(hid h, 10, x)]
        \<and> map fst (remove_calls evs) = (if x = None then [hid h] else [])
        \<and> cleanup_errors evs = List.map_filter (\<lambda>c. snd (snd c)) (stop_calls evs)
                                  @ List.map_filter snd (remove_calls evs)"
proof -
  obtain r w1 where s: "stop h 10 w = (r, w1)" by (cases "stop h 10 w")
  note se = stop_effect [OF s]
  show ?thesis
  proof (cases r)
    case (Inl e)
    then have "trace (cleanup_one h w) = trace w @ [Api (Stop (hid h) 10) (Some e), Print (CleanupError e)]"
      using s se by (simp add: cleanup_one_def emit_def raised_def)
    moreover have "stop_calls [Api (Stop (hid h) 10) (Some e), Print (CleanupError e)] = [(hid h, 10, Some e)]"
      "map fst (remove_calls [Api (Stop (hid h) 10) (Some e), Print (CleanupError e)]) = (if Some e = None then [hid h] else [])"
      "cleanup_errors [Api (Stop (hid h) 10) (Some e), Print (CleanupError e)] =
         List.map_filter (\<lambda>c. snd (snd c)) (stop_calls [Api (Stop (hid h) 10) (Some e), Print (CleanupError e)])
           @ List.map_filter snd (remove_calls [Api (Stop (hid h) 10) (Some e), Print (CleanupError e)])"
      by (simp_all add: stop_calls_def remove_calls_def cleanup_errors_def List.map_filter_def)
    ultimately show ?thesis by blast
  next
    case (Inr u)
    obtain r2 w2 where rm: "remove h w1 = (r2, w2)" by (cases "remove h w1")
    note re = remove_effect [OF rm]
    show ?thesis
    proof (cases r2)
      case (Inl e)
      let ?evs = "[Api (Stop (hid h) 10) None, Api (Remove (hid h)) (Some e), Print (CleanupError e)]"
      have "trace (cleanup_one h w) = trace w @ ?evs"
        using s se rm re Inr Inl by (simp add: cleanup_one_def emit_def raised_def)
      moreover have "stop_calls ?evs = [(hid h, 10, None)]"
        "map fst (remove_calls ?evs) = (if (None :: exn option) = None then [hid h] else [])"
        "cleanup_errors ?evs = List.map_filter (\<lambda>c. snd (snd c)) (stop_calls ?evs)
           @ List.map_filter snd (remove_calls ?evs)"
        by (simp_all add: stop_calls_def remove_calls_def cleanup_errors_def List.map_filter_def)
      ultimately show ?thesis by blast
    next
      case (Inr u2)
      let ?evs = "[Api (Stop (hid h) 10) None, Api (Remove (hid h)) None]"
      have "trace (cleanup_one h w) = trace w @ ?evs"
        using s se rm re Inr \<open>r = Inr u\<close> by (simp add: cleanup_one_def emit_def raised_def)
      moreover have "stop_calls ?evs = [(hid h, 10, None)]"
        "map fst (remove_calls ?evs) = (if (None :: exn option) = None then [hid h] else [])"
        "cleanup_errors ?evs = List.map_filter (\<lambda>c. snd (snd c)) (stop_calls ?evs)
           @ List.map_filter snd (remove_calls ?evs)"
        by (simp_all add: stop_calls_def remove_calls_def cleanup_errors_def List.map_filter_def)
      ultimately show ?thesis by blast
    qed
  qed
qed

lemma cleanup_loop_trace:
  "\<exists>evs. trace (cleanup_loop hs w) = trace w @ evs
        \<and> map (\<lambda>c. (fst c, fst (snd c))) (stop_calls evs) = map (\<lambda>h. (hid h, 10)) hs
        \<and> map fst (remove_calls evs) = map fst (filter (\<lambda>c. snd (snd c) = None) (stop_calls evs))
        \<and> length (cleanup_errors evs) =
            length (filter (\<lambda>c. snd (snd c) \<noteq> None) (stop_calls evs))
            + length (filter (\<lambda>c. snd c \<noteq> None) (remove_calls evs))"
proof (induction hs arbitrary: w)
  case Nil
  show ?case
    by (rule exI [of _ "[]"]) (simp add: stop_calls_def remove_calls_def cleanup_errors_def)
next
  case (Cons h hs)
  obtain evs1 x where a: "trace (cleanup_one h w) = trace w @ evs1"
      "stop_calls evs1 = [(hid h, 10, x)]"
      "map fst (remove_calls evs1) = (if x = None then [hid h] else [])"
      "cleanup_errors evs1 = List.map_filter (\<lambda>c. snd (snd c)) (stop_calls evs1)
                                  @ List.map_filter snd (remove_calls evs1)"
    using cleanup_one_trace [of h w] by blast
  obtain evs where b: "trace (cleanup_loop hs (cleanup_one h w)) = trace (cleanup_one h w) @ evs"
      "map (\<lambda>c. (fst c, fst (snd c))) (stop_calls evs) = map (\<lambda>h. (hid h, 10)) hs"
      "map fst (remove_calls evs) = map fst (filter (\<lambda>c. snd (snd c) = None) (stop_calls evs))"
      "length (cleanup_errors evs) =
            length (filter (\<lambda>c. snd (snd c) \<noteq> None) (stop_calls evs))
            + length (filter (\<lambda>c. snd c \<noteq> None) (remove_calls evs))"
    using Cons [of "cleanup_one h w"] by blast
  have app: "stop_calls (evs1 @ evs) = stop_calls evs1 @ stop_calls evs"
      "remove_calls (evs1 @ evs) = remove_calls evs1 @ remove_calls evs"
      "cleanup_errors (evs1 @ evs) = cleanup_errors evs1 @ cleanup_errors evs"
    by (simp_all add: stop_calls_def remove_calls_def cleanup_errors_def)
  have "trace (cleanup_loop (h # hs) w) = trace w @ (evs1 @ evs)"
    using a(1) b(1) by simp
  moreover have "map (\<lambda>c. (fst c, fst (snd c))) (stop_calls (evs1 @ evs)) = map (\<lambda>h. (hid h, 10)) (h # hs)"
    using a(2) b(2) by (simp add: app)
  moreover have "map fst (remove_calls (evs1 @ evs)) =
      map fst (filter (\<lambda>c. snd (snd c) = None) (stop_calls (evs1 @ evs)))"
    using a(2,3) b(3) by (simp add: app)
  moreover have "length (cleanup_errors (evs1 @ evs)) =
            length (filter (\<lambda>c. snd (snd c) \<noteq> None) (stop_calls (evs1 @ evs)))
            + length (filter (\<lambda>c. snd c \<noteq> None) (remove_calls (evs1 @ evs)))"
    using a(2,4) b(4) by (simp add: app List.map_filter_def)
  ultimately show ?case by blast
qed

lemma next_fault_clean:
  assumes "True \<notin> set (faults w)"
  shows "\<exists>w1. next_fault w = (False, w1) \<and> True \<notin> set (faults w1) \<and> daemon w1 = daemon w"
  using assms by (cases "faults w") (auto simp: next_fault_def)

lemma stop_clean:
  assumes "True \<notin> set (faults w)"
  shows "\<exists>r w'. stop h t w = (r, w') \<and> True \<notin> set (faults w')
          \<and> (if hid h \<in> ci_id ` set (daemon w)
              then r = Inr () \<and> daemon w' =
                     map (\<lambda>c. if ci_id c = hid h then c\<lparr>ci_status := ''exited''\<rparr> else c) (daemon w)
              else r = Inl NotFound \<and> daemon w' = daemon w)"
proof -
  obtain w1 where n: "next_fault w = (False, w1)" "True \<notin> set (faults w1)" "daemon w1 = daemon w"
    using next_fault_clean [OF assms] by blast
  have "list_ex (\<lambda>c. ci_id c = hid h) (daemon w1) \<longleftrightarrow> hid h \<in> ci_id ` set (daemon w)"
    using n(3) by (auto simp: list_ex_iff image_iff) metis
  then show ?thesis
    using n by (auto simp: stop_def api_def emit_def)
qed

lemma remove_clean:
  assumes "True \<notin> set (faults w)"
    and "\<forall>c\<in>set (daemon w). ci_id c = hid h \<longrightarrow> ci_status c \<noteq> ''running''"
  shows "\<exists>r w'. remove h w = (r, w') \<and> True \<notin> set (faults w')
          \<and> daemon w' = filter (\<lambda>c. ci_id c \<noteq> hid h) (daemon w)"
proof -
  obtain w1 where n: "next_fault w = (False, w1)" "True \<notin> set (faults w1)" "daemon w1 = daemon w"
    using next_fault_clean [OF assms(1)] by blast
  show ?thesis
  proof (cases "find (\<lambda>c. ci_id c = hid h) (daemon w)")
    case None
    then have "\<forall>c\<in>set (daemon w). ci_id c \<noteq> hid h" by (simp add: find_None_iff)
    then have "filter (\<lambda>c. ci_id c \<noteq> hid h) (daemon w) = daemon w" by (simp add: filter_id_conv)
    then show ?thesis using n None by (simp add: remove_def api_def emit_def)
  next
    case (Some c)
    then have "c \<in> set (daemon w)" "ci_id c = hid h"
      by (auto simp: find_Some_iff in_set_conv_nth)
    then have "ci_status c \<noteq> ''running''" using assms(2) by blast
    then show ?thesis using n Some by (simp add: remove_def api_def emit_def)
  qed
qed

lemma cleanup_one_clean:
  assumes "True \<notin> set (faults w)"
  shows "True \<notin> set (faults (cleanup_one h w))"
    and "ci_id ` set (daemon (cleanup_one h w)) = ci_id ` set (daemon w) - {hid h}"
    and "hid h \<notin> ci_id ` set (daemon w) \<Longrightarrow> daemon (cleanup_one h w) = daemon w"
    and "hid h \<notin> ci_id ` set (daemon w) \<Longrightarrow>
           trace (cleanup_one h w) =
             trace w @ [Api (Stop (hid h) 10) (Some NotFound), Print (CleanupError NotFound)]"
proof -
  obtain r w1 where s: "stop h 10 w = (r, w1)" "True \<notin> set (faults w1)"
      "if hid h \<in> ci_id ` set (daemon w)
       then r = Inr () \<and> daemon w1 =
              map (\<lambda>c. if ci_id c = hid h then c\<lparr>ci_status := ''exited''\<rparr> else c) (daemon w)
       else r = Inl NotFound \<and> daemon w1 = daemon w"
    using stop_clean [OF assms, of h 10] by blast
  have all: "True \<notin> set (faults (cleanup_one h w))
      \<and> ci_id ` set (daemon (cleanup_one h w)) = ci_id ` set (daemon w) - {hid h}
      \<and> (hid h \<notin> ci_id ` set (daemon w) \<longrightarrow> daemon (cleanup_one h w) = daemon w
           \<and> trace (cleanup_one h w) =
             trace w @ [Api (Stop (hid h) 10) (Some NotFound), Print (CleanupError NotFound)])"
  proof (cases "hid h \<in> ci_id ` set (daemon w)")
    case False
    then have r: "r = Inl NotFound" and d: "daemon w1 = daemon w" using s(3) by simp_all
    have c: "cleanup_one h w = emit (Print (CleanupError NotFound)) w1"
      using s(1) r by (simp add: cleanup_one_def)
    have t: "trace w1 = trace w @ [Api (Stop (hid h) 10) (Some NotFound)]"
      using stop_effect [OF s(1)] r by (simp add: raised_def)
    show ?thesis using False s(2) d t by (auto simp: c emit_def)
  next
    case True
    then have r: "r = Inr ()" and d: "daemon w1 =
              map (\<lambda>c. if ci_id c = hid h then c\<lparr>ci_status := ''exited''\<rparr> else c) (daemon w)"
      using s(3) by simp_all
    have st: "\<forall>c\<in>set (daemon w1). ci_id c = hid h \<longrightarrow> ci_status c \<noteq> ''running''"
      unfolding d by auto
    obtain r2 w2 where rm: "remove h w1 = (r2, w2)" "True \<notin> set (faults w2)"
        "daemon w2 = filter (\<lambda>c. ci_id c \<noteq> hid h) (daemon w1)"
      using remove_clean [OF s(2) st] by blast
    have f: "True \<notin> set (faults (cleanup_one h w))" and dm: "daemon (cleanup_one h w) = daemon w2"
      using s(1) r rm(1,2) by (cases r2; simp add: cleanup_one_def emit_def)+
    have "ci_id ` set (daemon w2) = ci_id ` set (daemon w) - {hid h}"
      unfolding rm(3) d by (auto simp: image_iff)
    then show ?thesis using f dm True by simp
  qed
  show "True \<notin> set (faults (cleanup_one h w))"
    and "ci_id ` set (daemon (cleanup_one h w)) = ci_id ` set (daemon w) - {hid h}"
    and "hid h \<notin> ci_id ` set (daemon w) \<Longrightarrow> daemon (cleanup_one h w) = daemon w"
    and "hid h \<notin> ci_id ` set (daemon w) \<Longrightarrow>
           trace (cleanup_one h w) =
             trace w @ [Api (Stop (hid h) 10) (Some NotFound), Print (CleanupError NotFound)]"
    using all by simp_all
qed

lemma cleanup_loop_clean:
  assumes "True \<notin> set (faults w)"
  shows "True \<notin> set (faults (cleanup_loop hs w))
       \<and> ci_id ` set (daemon (cleanup_loop hs w)) = ci_id ` set (daemon w) - hid ` set hs"
  using assms
proof (induction hs arbitrary: w)
  case Nil
  then show ?case by simp
next
  case (Cons h hs)
  note c = cleanup_one_clean [OF Cons.prems, of h]
  show ?case using Cons.IH [OF c(1)] c(2) by auto
qed

lemma cleanup_loop_absent:
  assumes "True \<notin> set (faults w)" and "hid ` set hs \<inter> ci_id ` set (daemon w) = {}"
  shows "daemon (cleanup_loop hs w) = daemon w
       \<and> trace (cleanup_loop hs w) =
           trace w @ concat (map (\<lambda>h. [Api (Stop (hid h) 10) (Some NotFound),
                                         Print (CleanupError NotFound)]) hs)"
  using assms
proof (induction hs arbitrary: w)
  case Nil
  then show ?case by simp
next
  case (Cons h hs)
  have a: "hid h \<notin> ci_id ` set (daemon w)" using Cons.prems(2) by auto
  note c = cleanup_one_clean [OF Cons.prems(1), of h]
  have d: "daemon (cleanup_one h w) = daemon w" by (rule c(3) [OF a])
  have "hid ` set hs \<inter> ci_id ` set (daemon (cleanup_one h w)) = {}"
    using Cons.prems(2) d by auto
  then show ?case using Cons.IH [OF c(1)] d c(4) [OF a] by simp
qed

lemma cleanup_containers_loop: "cleanup_containers hs w = cleanup_loop hs w"
  by (cases hs) (simp_all add: cleanup_containers_def)

text \<open>
  Claim C7, as stated, says that after a second clean-up no container of the handle
  set is left in the runtime. The program stops and removes inside one \<^verbatim>\<open>try\<close>: a
  container whose \<^verbatim>\<open>stop\<close> raises is not removed. When the stop of a running
  container fails in both clean-ups, the container is still there after the second.
\<close>

theorem stop_failure_leaves_container:
  "map ci_id (daemon (cleanup_containers [handle1]
      (cleanup_containers [handle1] (one_container\<lparr>faults := [True, True]\<rparr>)))) = [''c1'']
   \<and> trace (cleanup_containers [handle1]
      (cleanup_containers [handle1] (one_container\<lparr>faults := [True, True]\<rparr>))) =
       [Api (Stop ''c1'' 10) (Some APIError), Print (CleanupError APIError),
        Api (Stop ''c1'' 10) (Some APIError), Print (CleanupError APIError)]"
  by code_simp

text \<open>
  Claim C7, amended. \<^verbatim>\<open>cleanup_containers\<close> always returns, whatever the calls do: every
  handle gets one \<^verbatim>\<open>stop\<close> call with a time-out of 10, in order, also after earlier
  handles failed; \<^verbatim>\<open>remove\<close> is called for exactly the handles whose stop succeeded;
  and each failing call is printed as one error. When no call of the Docker API fails
  on its own, no container of the handle set is left after the clean-up, and a second
  clean-up of the same handles changes nothing in the daemon: each of its \<^verbatim>\<open>stop\<close>
  calls raises \<open>NotFound\<close>, which is caught and printed.
\<close>

theorem cleanup_best_effort:
  "(\<exists>evs. trace (cleanup_containers hs w) = trace w @ evs
        \<and> map (\<lambda>c. (fst c, fst (snd c))) (stop_calls evs) = map (\<lambda>h. (hid h, 10)) hs
        \<and> map fst (remove_calls evs) = map fst (filter (\<lambda>c. snd (snd c) = None) (stop_calls evs))
        \<and> length (cleanup_errors evs) =
            length (filter (\<lambda>c. snd (snd c) \<noteq> None) (stop_calls evs))
            + length (filter (\<lambda>c. snd c \<noteq> None) (remove_calls evs)))
   \<and> (True \<notin> set (faults w) \<longrightarrow>
          hid ` set hs \<inter> ci_id ` set (daemon (cleanup_containers hs w)) = {}
        \<and> daemon (cleanup_containers hs (cleanup_containers hs w)) = daemon (cleanup_containers hs w)
        \<and> trace (cleanup_containers hs (cleanup_containers hs w)) =
            trace (cleanup_containers hs w)
              @ concat (map (\<lambda>h. [Api (Stop (hid h) 10) (Some NotFound),
                                    Print (CleanupError NotFound)]) hs))"
proof (intro conjI impI)
  show "\<exists>evs. trace (cleanup_containers hs w) = trace w @ evs
        \<and> map (\<lambda>c. (fst c, fst (snd c))) (stop_calls evs) = map (\<lambda>h. (hid h, 10)) hs
        \<and> map fst (remove_calls evs) = map fst (filter (\<lambda>c. snd (snd c) = None) (stop_calls evs))
        \<and> length (cleanup_errors evs) =
            length (filter (\<lambda>c. snd (snd c) \<noteq> None) (stop_calls evs))
            + length (filter (\<lambda>c. snd c \<noteq> None) (remove_calls evs))"
    unfolding cleanup_containers_loop by (rule cleanup_loop_trace)
next
  assume clean: "True \<notin> set (faults w)"
  note first = cleanup_loop_clean [OF clean, of hs]
  have gone: "hid ` set hs \<inter> ci_id ` set (daemon (cleanup_loop hs w)) = {}"
    using first by auto
  note second = cleanup_loop_absent [OF conjunct1 [OF first] gone]
  show "hid ` set hs \<inter> ci_id ` set (daemon (cleanup_containers hs w)) = {}"
    unfolding cleanup_containers_loop by (rule gone)
  show "daemon (cleanup_containers hs (cleanup_containers hs w)) = daemon (cleanup_containers hs w)"
    unfolding cleanup_containers_loop using second by simp
  show "trace (cleanup_containers hs (cleanup_containers hs w)) =
            trace (cleanup_containers hs w)
              @ concat (map (\<lambda>h. [Api (Stop (hid h) 10) (Some NotFound),
                                    Print (CleanupError NotFound)]) hs)"
    unfolding cleanup_containers_loop using second by simp
qed

theorem cleanup_best_effort_witness:
  "True \<notin> set (faults one_container)
   \<and> hid ` set [handle1] \<inter> ci_id ` set (daemon one_container) = {''c1''}
   \<and> hid ` set [handle1] \<inter> ci_id ` set (daemon (cleanup_containers [handle1] one_container)) = {}
   \<and> daemon (cleanup_containers [handle1] (cleanup_containers [handle1] one_container))
       = daemon (cleanup_containers [handle1] one_container)
   \<and> trace (cleanup_containers [handle1] (cleanup_containers [handle1] one_container)) =
       [Api (Stop ''c1'' 10) None, Api (Remove ''c1'') None,
        Api (Stop ''c1'' 10) (Some NotFound), Print (CleanupError NotFound)]"
proof -
  have a: "True \<notin> set (faults one_container)"
    by (simp add: one_container_def bare_world_def)
  have b: "hid ` set [handle1] \<inter> ci_id ` set (daemon one_container) = {''c1''}"
    by (simp add: one_container_def bare_world_def handle1_def)
  have c: "trace (cleanup_containers [handle1] one_container) =
      [Api (Stop ''c1'' 10) None, Api (Remove ''c1'') None]"
    by code_simp
  have d: "hid handle1 = ''c1''" by (simp add: handle1_def)
  show ?thesis
    using a b cleanup_best_effort [of "[handle1]" one_container]
    by (simp add: c d)
qed

section \<open>Further properties\<close>

lemma env_vars_not_ok:
  assumes "\<not> feed_ok fd"
  shows "env_vars ul env gp n fd = Inl AttributeError"
proof (cases "dget fd ''environment'' (YMap [])")
  case (YMap fe)
  then obtain v where v: "map_of fe (KStr ''LOG_LEVEL'') = Some v" and ns: "\<forall>s. v \<noteq> YStr s"
    using assms by (auto simp: feed_ok_def split: option.splits yaml.splits)
  have "py_lower ul v = Inl AttributeError" using ns by (cases v) auto
  then show ?thesis using YMap v
    by (simp add: env_vars_def base_env_vars_def dget_def)
qed (simp_all add: env_vars_def)

lemma feed_step_not_ok:
  assumes "\<not> ((case d of YMap fd \<Rightarrow> feed_ok fd | _ \<Rightarrow> False)
              \<and> \<not> mkdir_error w (feed_state_dir (host_pwd L) n))"
  shows "\<exists>e w'. feed_step L n d w = (Inl e, w')"
proof (cases d)
  case (YMap fd)
  show ?thesis
  proof (cases "mkdir_error w (feed_state_dir (host_pwd L) n)")
    case True
    then show ?thesis using YMap by (simp add: feed_step_def mkdir_def emit_def Let_def)
  next
    case False
    then have "\<not> feed_ok fd" using assms YMap by simp
    then show ?thesis using YMap False
      by (simp add: feed_step_def mkdir_def emit_def env_vars_not_ok Let_def)
  qed
qed (simp_all add: feed_step_def)

lemma spawn_feeds_not_ok:
  assumes "\<not> list_all (\<lambda>item. (case snd item of YMap fd \<Rightarrow> feed_ok fd | _ \<Rightarrow> False)
                       \<and> \<not> mkdir_error w (feed_state_dir (host_pwd L) (fst item))) items"
  shows "\<exists>e w'. spawn_feeds L items acc w = (Inl e, w')"
  using assms
proof (induction items arbitrary: acc w)
  case Nil
  then show ?case by simp
next
  case (Cons item items)
  obtain n d where item: "item = (n, d)" by (cases item)
  show ?case
  proof (cases "(case d of YMap fd \<Rightarrow> feed_ok fd | _ \<Rightarrow> False)
              \<and> \<not> mkdir_error w (feed_state_dir (host_pwd L) n)")
    case False
    then obtain e w' where "feed_step L n d w = (Inl e, w')"
      using feed_step_not_ok [of d w L n] by blast
    then show ?thesis by (simp add: item)
  next
    case True
    then obtain fd where d: "d = YMap fd" and ok: "feed_ok fd"
      and dir: "\<not> mkdir_error w (feed_state_dir (host_pwd L) n)"
      by (auto split: yaml.splits)
    obtain r w1 where step: "feed_step L n (YMap fd) w = (Inr r, w1)" and s1: "static_eq w w1"
      using feed_step_effect [OF ok dir] by blast
    have "\<not> list_all (\<lambda>item. (case snd item of YMap fd \<Rightarrow> feed_ok fd | _ \<Rightarrow> False)
                       \<and> \<not> mkdir_error w1 (feed_state_dir (host_pwd L) (fst item))) items"
      using Cons.prems True s1 by (simp add: item static_eq_def)
    then have rest: "\<exists>e w'. spawn_feeds L items acc w1 = (Inl e, w')" for acc
      using Cons.IH by blast
    show ?thesis
    proof (cases r)
      case None
      then show ?thesis using step rest [of acc] by (simp add: item d)
    next
      case (Some h)
      then show ?thesis using step rest [of "acc @ [h]"] by (simp add: item d)
    qed
  qed
qed

text \<open>
  Property X1. For a configuration whose \<^verbatim>\<open>feeds\<close> entry is a dictionary,
  \<^verbatim>\<open>process_feeds\<close> returns normally exactly when every feed is well formed and its
  state directory can be created. Otherwise an exception leaves the loop: with a
  second feed whose \<^verbatim>\<open>LOG_LEVEL\<close> is a number, \<^verbatim>\<open>process_feeds\<close> raises
  \<open>AttributeError\<close> after it has started the container of the first feed.
\<close>

theorem process_feeds_returns_iff:
  assumes "py_index feeds_config ''feeds'' = Inr (YMap items)"
  shows "(\<exists>hs w'. process_feeds feeds_config image_ref w = (Inr hs, w')) \<longleftrightarrow> feeds_ok w items"
proof
  assume "feeds_ok w items"
  then show "\<exists>hs w'. process_feeds feeds_config image_ref w = (Inr hs, w')"
    using process_feeds_effect [OF assms, of w image_ref] by blast
next
  assume ret: "\<exists>hs w'. process_feeds feeds_config image_ref w = (Inr hs, w')"
  obtain c where cfg: "feeds_config = YMap c" and feeds: "map_of c (KStr ''feeds'') = Some (YMap items)"
    using assms by (cases feeds_config) (auto split: option.splits)
  have "KStr ''feeds'' \<in> set (map fst c)"
    using feeds by (metis map_of_eq_None_iff option.distinct(1) set_map)
  then have present: "py_contains feeds_config ''feeds'' = Inr True" by (simp add: cfg)
  obtain L w0 where d: "detect_locals image_ref w = (L, w0)" by (cases "detect_locals image_ref w")
  define w1 where "w1 = emit (Print (DefaultEndpoint (default_sparql_endpoint (environ w0)))) w0"
  have s: "static_eq w w1"
    using detect_locals_effect(1) [OF d] by (auto simp: w1_def emit_def static_eq_def)
  have hp: "host_pwd L = getenv (environ w) ''HOST_PWD'' (cwd w)" by (rule detect_locals_effect(2) [OF d])
  have pf: "process_feeds feeds_config image_ref w = spawn_feeds L items [] w1"
    using present assms d by (simp add: process_feeds_def w1_def)
  show "feeds_ok w items"
  proof (rule ccontr)
    assume "\<not> feeds_ok w items"
    then have "\<not> list_all (\<lambda>item. (case snd item of YMap fd \<Rightarrow> feed_ok fd | _ \<Rightarrow> False)
                       \<and> \<not> mkdir_error w1 (feed_state_dir (host_pwd L) (fst item))) items"
      using s by (simp add: feeds_ok_def hp static_eq_def)
    then obtain e w' where "spawn_feeds L items [] w1 = (Inl e, w')"
      using spawn_feeds_not_ok by blast
    then show False using ret pf by simp
  qed
qed

theorem process_feeds_returns_iff_witness:
  "py_index (YMap [(KStr ''feeds'', YMap [(KStr ''a'', YMap [(KStr ''url'', YStr ''https://a'')]),
                                      (KStr ''b'', YMap [(KStr ''environment'', YMap [(KStr ''LOG_LEVEL'', YInt 10)])])])])
       ''feeds''
     = Inr (YMap [(KStr ''a'', YMap [(KStr ''url'', YStr ''https://a'')]),
                  (KStr ''b'', YMap [(KStr ''environment'', YMap [(KStr ''LOG_LEVEL'', YInt 10)])])])
   \<and> \<not> feeds_ok bare_world [(KStr ''a'', YMap [(KStr ''url'', YStr ''https://a'')]),
                             (KStr ''b'', YMap [(KStr ''environment'', YMap [(KStr ''LOG_LEVEL'', YInt 10)])])]
   \<and> fst (process_feeds
            (YMap [(KStr ''feeds'', YMap [(KStr ''a'', YMap [(KStr ''url'', YStr ''https://a'')]),
                                      (KStr ''b'', YMap [(KStr ''environment'', YMap [(KStr ''LOG_LEVEL'', YInt 10)])])])])
            ''img'' bare_world) = Inl AttributeError
   \<and> map ci_name (daemon (snd (process_feeds
            (YMap [(KStr ''feeds'', YMap [(KStr ''a'', YMap [(KStr ''url'', YStr ''https://a'')]),
                                      (KStr ''b'', YMap [(KStr ''environment'', YMap [(KStr ''LOG_LEVEL'', YInt 10)])])])])
            ''img'' bare_world))) = [''ldes-consumer-a'']"
proof -
  let ?items = "[(KStr ''a'', YMap [(KStr ''url'', YStr ''https://a'')]),
                 (KStr ''b'', YMap [(KStr ''environment'', YMap [(KStr ''LOG_LEVEL'', YInt 10)])])]"
  have idx: "py_index (YMap [(KStr ''feeds'', YMap ?items)]) ''feeds'' = Inr (YMap ?items)" by simp
  have nok: "\<not> feeds_ok bare_world ?items" by code_simp
  have r: "fst (process_feeds (YMap [(KStr ''feeds'', YMap ?items)]) ''img'' bare_world) = Inl AttributeError"
    by code_simp
  have dm: "map ci_name (daemon (snd (process_feeds (YMap [(KStr ''feeds'', YMap ?items)]) ''img'' bare_world)))
      = [''ldes-consumer-a'']"
    by code_simp
  show ?thesis
    using idx nok r dm process_feeds_returns_iff [OF idx, of "''img''" bare_world] by simp
qed

text \<open>
  Property X2. The specification's end-to-end scenario: the feed \<^verbatim>\<open>sensors\<close> with a URL
  and the override \<^verbatim>\<open>FOLLOW: "true"\<close>, with \<^verbatim>\<open>DEFAULT_SPARQL_ENDPOINT\<close> set to
  \<^verbatim>\<open>http://x/repo\<close>, gets exactly the eleven required keys: the URL, the override, the
  computed target graph, the default endpoint, and the default of every other key.
\<close>

theorem sensors_scenario:
  "env_vars ascii_lower [''DEFAULT_SPARQL_ENDPOINT'' \<mapsto> ''http://x/repo''] ''ldes'' (KStr ''sensors'')
     [(KStr ''url'', YStr ''https://example/feed''), (KStr ''environment'', YMap [(KStr ''FOLLOW'', YStr ''true'')])]
   = Inr [(KStr ''SPARQL_ENDPOINT'', YStr ''http://x/repo''),
          (KStr ''TARGET_GRAPH'', YStr ''urn:kgap:ldes:sensors''),
          (KStr ''FOLLOW'', YStr ''true''),
          (KStr ''MEMBER_BATCH_SIZE'', YStr ''500''),
          (KStr ''MATERIALIZE'', YStr ''false''),
          (KStr ''LOG_LEVEL'', YStr ''debug''),
          (KStr ''LDES'', YStr ''https://example/feed''),
          (KStr ''POLLING_FREQUENCY'', YStr ''60000''),
          (KStr ''FAILURE_IS_FATAL'', YStr ''false''),
          (KStr ''OPERATION_MODE'', YStr ''Replication''),
          (KStr ''SHAPE'', YStr '''')]"
  by (simp add: env_vars_def base_env_vars_def target_graph_def default_target_graph_def dget_def
      getenv_def lower_def is_ascii_def lower_char_def)

text \<open>
  Property X3. For every feed for which an environment is built and whose override map
  has no \<^verbatim>\<open>SPARQL_ENDPOINT\<close>, the resolved endpoint is the value of
  \<^verbatim>\<open>DEFAULT_SPARQL_ENDPOINT\<close>, or the empty string when that variable is unset. When
  the variable is set, this is also the default endpoint the program announces.
\<close>

theorem sparql_endpoint_resolution:
  assumes "feed_ok fd" and "map_of (feed_env_of fd) (KStr ''SPARQL_ENDPOINT'') = None"
  shows "resolved ul env gp feed_name fd ''SPARQL_ENDPOINT''
           = Some (YStr (getenv env ''DEFAULT_SPARQL_ENDPOINT'' ''''))
       \<and> (\<forall>d. env ''DEFAULT_SPARQL_ENDPOINT'' = Some d \<longrightarrow>
              resolved ul env gp feed_name fd ''SPARQL_ENDPOINT'' = Some (YStr d)
            \<and> default_sparql_endpoint env = d)"
proof -
  have k: "''SPARQL_ENDPOINT'' \<in> set required_keys" by (simp add: required_keys_def)
  obtain base where b: "base_env_vars ul env (target_graph gp feed_name fd (feed_env_of fd))
        (dget fd ''url'' (YStr '''')) (feed_env_of fd) = Inr base"
    and r: "resolved ul env gp feed_name fd ''SPARQL_ENDPOINT'' = map_of base (KStr ''SPARQL_ENDPOINT'')"
    using resolved_required [OF assms(1) k, of ul env gp feed_name] by blast
  obtain ll where base: "base =
         [(KStr ''SPARQL_ENDPOINT'', 
             dget (feed_env_of fd) ''SPARQL_ENDPOINT'' (YStr (getenv env ''DEFAULT_SPARQL_ENDPOINT'' ''''))),
          (KStr ''TARGET_GRAPH'', target_graph gp feed_name fd (feed_env_of fd)),
          (KStr ''FOLLOW'', dget (feed_env_of fd) ''FOLLOW'' (YStr ''false'')),
          (KStr ''MEMBER_BATCH_SIZE'', dget (feed_env_of fd) ''MEMBER_BATCH_SIZE'' (YStr ''500'')),
          (KStr ''MATERIALIZE'', dget (feed_env_of fd) ''MATERIALIZE'' (YStr ''false'')),
          (KStr ''LOG_LEVEL'', ll),
          (KStr ''LDES'', dget fd ''url'' (YStr '''')),
          (KStr ''POLLING_FREQUENCY'', dget (feed_env_of fd) ''POLLING_FREQUENCY'' (YStr ''60000'')),
          (KStr ''FAILURE_IS_FATAL'', dget (feed_env_of fd) ''FAILURE_IS_FATAL'' (YStr ''false'')),
          (KStr ''OPERATION_MODE'', dget (feed_env_of fd) ''OPERATION_MODE'' (YStr ''Replication'')),
          (KStr ''SHAPE'', dget (feed_env_of fd) ''SHAPE'' (YStr ''''))]"
    using base_env_vars_shape [OF b] by blast
  have "resolved ul env gp feed_name fd ''SPARQL_ENDPOINT''
           = Some (YStr (getenv env ''DEFAULT_SPARQL_ENDPOINT'' ''''))"
    using r assms(2) by (simp add: base dget_def)
  then show ?thesis
    by (simp add: getenv_def default_sparql_endpoint_def)
qed

theorem sparql_endpoint_resolution_witness:
  "feed_ok [(KStr ''url'', YStr ''https://example/feed''), (KStr ''environment'', YMap [(KStr ''FOLLOW'', YStr ''true'')])]
   \<and> map_of (feed_env_of [(KStr ''url'', YStr ''https://example/feed''),
                            (KStr ''environment'', YMap [(KStr ''FOLLOW'', YStr ''true'')])]) (KStr ''SPARQL_ENDPOINT'') = None
   \<and> [''DEFAULT_SPARQL_ENDPOINT'' \<mapsto> ''http://x/repo''] ''DEFAULT_SPARQL_ENDPOINT'' = Some ''http://x/repo''
   \<and> resolved ascii_lower [''DEFAULT_SPARQL_ENDPOINT'' \<mapsto> ''http://x/repo''] ''ldes'' (KStr ''sensors'')
        [(KStr ''url'', YStr ''https://example/feed''), (KStr ''environment'', YMap [(KStr ''FOLLOW'', YStr ''true'')])]
        ''SPARQL_ENDPOINT'' = Some (YStr ''http://x/repo'')
   \<and> default_sparql_endpoint [''DEFAULT_SPARQL_ENDPOINT'' \<mapsto> ''http://x/repo''] = ''http://x/repo''"
proof -
  have ok: "feed_ok [(KStr ''url'', YStr ''https://example/feed''), (KStr ''environment'', YMap [(KStr ''FOLLOW'', YStr ''true'')])]"
    by (simp add: feed_ok_def dget_def)
  have no: "map_of (feed_env_of [(KStr ''url'', YStr ''https://example/feed''),
                            (KStr ''environment'', YMap [(KStr ''FOLLOW'', YStr ''true'')])]) (KStr ''SPARQL_ENDPOINT'') = None"
    by (simp add: feed_env_of_def dget_def)
  show ?thesis
    using ok no
      sparql_endpoint_resolution [OF ok no, of ascii_lower "[''DEFAULT_SPARQL_ENDPOINT'' \<mapsto> ''http://x/repo'']"
        "''ldes''" "KStr ''sensors''"]
    by (simp add: getenv_def)
qed

end
